theory Spec2Isabelle
  imports Complex_Main "HOL-Library.AList"
begin

section \<open>Conventions of the embedding\<close>

text \<open>
  The development embeds \<^verbatim>\<open>src/live_whisper/server.py\<close>. Python floats (time stamps,
  durations, probabilities, audio samples) are read as exact real numbers, text is read
  as ASCII, and the wall clock \<^verbatim>\<open>time.time()\<close> is an argument \<open>now\<close> of every function
  that reads it. Exceptions are values of \<open>py_error\<close>; a function that can raise returns
  \<open>py_error + 'a\<close>.
\<close>

datatype py_error = IndexError | KeyError | TypeError | AttributeError | ConnectionClosed

subsection \<open>Python primitives\<close>

text \<open>\<^verbatim>\<open>int(x)\<close> on a float truncates towards zero.\<close>

definition py_int :: "real \<Rightarrow> int" where
  "py_int x = (if 0 \<le> x then \<lfloor>x\<rfloor> else \<lceil>x\<rceil>)"

text \<open>\<^verbatim>\<open>a[k:]\<close>: a negative \<open>k\<close> counts from the end, and no index is out of range.\<close>

definition slice_from :: "int \<Rightarrow> 'a list \<Rightarrow> 'a list" where
  "slice_from k xs =
     (if 0 \<le> k then drop (nat k) xs else drop (length xs - nat (- k)) xs)"

text \<open>\<^verbatim>\<open>str.strip()\<close> and \<^verbatim>\<open>str.lower()\<close> on ASCII text.\<close>

definition is_space :: "char \<Rightarrow> bool" where
  "is_space c = (c \<in> set [CHR '' '', CHR 0x09, CHR 0x0A, CHR 0x0B, CHR 0x0C, CHR 0x0D,
                           CHR 0x1C, CHR 0x1D, CHR 0x1E, CHR 0x1F])"

definition strip :: "string \<Rightarrow> string" where
  "strip s = rev (dropWhile is_space (rev (dropWhile is_space s)))"

definition lower_char :: "char \<Rightarrow> char" where
  "lower_char c =
     (let n = (of_char c :: nat) in if 65 \<le> n \<and> n \<le> 90 then char_of (n + 32) else c)"

definition lower :: "string \<Rightarrow> string" where
  "lower s = map lower_char s"

subsection \<open>Fixed three-decimal formatting\<close>

text \<open>
  \<^verbatim>\<open>"{:.3f}".format(x)\<close>: the decimal expansion of \<open>x\<close> rounded to the nearest
  thousandth, a tie going to the even neighbour, with a leading minus sign for a
  negative \<open>x\<close>.
\<close>

definition round_half_even :: "real \<Rightarrow> int" where
  "round_half_even x =
     (let f = \<lfloor>x\<rfloor>; r = x - of_int f
      in if r < 1 / 2 then f else if 1 / 2 < r then f + 1
         else if even f then f else f + 1)"

definition digit :: "nat \<Rightarrow> char" where
  "digit n = ''0123456789'' ! n"

fun show_nat :: "nat \<Rightarrow> string" where
  "show_nat n = (if n < 10 then [digit n] else show_nat (n div 10) @ [digit (n mod 10)])"

declare show_nat.simps [simp del]

definition pad3 :: "nat \<Rightarrow> string" where
  "pad3 n = [digit (n div 100), digit (n div 10 mod 10), digit (n mod 10)]"

definition fmt3 :: "real \<Rightarrow> string" where
  "fmt3 x =
     (let q = nat (round_half_even (\<bar>x\<bar> * 1000))
      in (if x < 0 then ''-'' else []) @ show_nat (q div 1000) @ ''.'' @ pad3 (q mod 1000))"

text \<open>Reading such a string back, in thousandths of a second.\<close>

definition digit_val :: "char \<Rightarrow> nat" where
  "digit_val c = of_char c - 48"

definition read_nat :: "string \<Rightarrow> nat" where
  "read_nat s = foldl (\<lambda>a c. 10 * a + digit_val c) 0 s"

definition millis :: "string \<Rightarrow> int" where
  "millis s =
     (case s of
        [] \<Rightarrow> 0
      | c # r \<Rightarrow>
          if c = CHR ''-'' then - int (read_nat (filter (\<lambda>d. d \<noteq> CHR ''.'') r))
          else int (read_nat (filter (\<lambda>d. d \<noteq> CHR ''.'') s)))"

section \<open>The session: \<^verbatim>\<open>ServeClientBase\<close> and \<^verbatim>\<open>ServeClientFasterWhisper\<close>\<close>

text \<open>A transcript entry, as \<^verbatim>\<open>format_segment\<close> builds it: both times are strings.\<close>

record segment =
  seg_start :: string
  seg_end :: string
  seg_text :: string

text \<open>A segment as the model returns it, with times relative to the chunk.\<close>

record raw_segment =
  rs_start :: real
  rs_end :: real
  rs_text :: string
  no_speech_prob :: real

type_synonym websocket = nat

record client =
  client_uid :: string
  websocket :: websocket
  timestamp_offset :: real
  frames_np :: "real list option"
  frames_offset :: real
  text_hist :: "string list"
  current_out :: string
  prev_out :: string
  t_start :: "real option"
  exit_flag :: bool
  same_output_threshold :: nat
  show_prev_out_thresh :: real
  add_pause_thresh :: real
  transcript :: "segment list"
  send_last_n_segments :: nat
  no_speech_thresh :: real

definition RATE :: nat where
  "RATE = 16000"

text \<open>The fields as \<^verbatim>\<open>__init__\<close> sets them.\<close>

definition new_client :: "websocket \<Rightarrow> string \<Rightarrow> client" where
  "new_client ws uid =
     \<lparr>client_uid = uid, websocket = ws, timestamp_offset = 0, frames_np = None, frames_offset = 0,
      text_hist = [], current_out = [], prev_out = [], t_start = None, exit_flag = False,
      same_output_threshold = 0, show_prev_out_thresh = 5, add_pause_thresh = 3,
      transcript = [], send_last_n_segments = 10, no_speech_thresh = 45 / 100\<rparr>"

subsection \<open>The audio window\<close>

text \<open>
  \<^verbatim>\<open>add_frames\<close>. The guard of the trim reads \<^verbatim>\<open>self.frames_np[0]\<close>, the first sample
  of the window, and compares it with \<open>45 * RATE\<close>; on a window of length zero that read
  raises.
\<close>

definition trim_window :: "client \<Rightarrow> real list \<Rightarrow> client" where
  "trim_window c w =
     (let c1 = c\<lparr>frames_offset := frames_offset c + 30\<rparr>;
          c2 = c1\<lparr>frames_np := Some (slice_from (py_int (30 * real RATE)) w)\<rparr>
      in if timestamp_offset c2 < frames_offset c2
         then c2\<lparr>timestamp_offset := frames_offset c2\<rparr> else c2)"

definition store_frames :: "client \<Rightarrow> real list \<Rightarrow> client" where
  "store_frames c frame_np =
     (case frames_np c of
        None \<Rightarrow> c\<lparr>frames_np := Some frame_np\<rparr>
      | Some w \<Rightarrow> c\<lparr>frames_np := Some (w @ frame_np)\<rparr>)"

definition add_frames :: "client \<Rightarrow> real list \<Rightarrow> py_error + client" where
  "add_frames c frame_np =
     (case frames_np c of
        None \<Rightarrow> Inr (store_frames c frame_np)
      | Some [] \<Rightarrow> Inl IndexError
      | Some (x # w) \<Rightarrow>
          if real (45 * RATE) < x then Inr (store_frames (trim_window c (x # w)) frame_np)
          else Inr (store_frames c frame_np))"

text \<open>\<^verbatim>\<open>clip_audio_if_no_valid_segment\<close>; subscripting \<^verbatim>\<open>None\<close> raises.\<close>

definition clip_audio_if_no_valid_segment :: "client \<Rightarrow> py_error + client" where
  "clip_audio_if_no_valid_segment c =
     (case frames_np c of
        None \<Rightarrow> Inl TypeError
      | Some w \<Rightarrow>
          if 25 * RATE <
             length (slice_from (py_int ((timestamp_offset c - frames_offset c) * real RATE)) w)
          then (let duration = real (length w) / real RATE
                in Inr (c\<lparr>timestamp_offset := frames_offset c + duration - 5\<rparr>))
          else Inr c)"

text \<open>\<^verbatim>\<open>get_audio_chunk_for_processing\<close>.\<close>

definition get_audio_chunk_for_processing :: "client \<Rightarrow> py_error + real list \<times> real" where
  "get_audio_chunk_for_processing c =
     (case frames_np c of
        None \<Rightarrow> Inl TypeError
      | Some w \<Rightarrow>
          (let samples_take = max 0 ((timestamp_offset c - frames_offset c) * real RATE);
               input_bytes = slice_from (py_int samples_take) w;
               duration = real (length input_bytes) / real RATE
           in Inr (input_bytes, duration)))"

subsection \<open>The stabilizer\<close>

definition format_segment :: "real \<Rightarrow> real \<Rightarrow> string \<Rightarrow> segment" where
  "format_segment start end text =
     \<lparr>seg_start = fmt3 start, seg_end = fmt3 end, seg_text = text\<rparr>"

text \<open>\<^verbatim>\<open>prepare_segments\<close>: the last entries of the transcript, then the tentative one.\<close>

definition prepare_segments :: "client \<Rightarrow> segment option \<Rightarrow> segment list" where
  "prepare_segments c last_segment =
     (let segments =
            (if send_last_n_segments c \<le> length (transcript c)
             then slice_from (- int (send_last_n_segments c)) (transcript c)
             else transcript c)
      in case last_segment of None \<Rightarrow> segments | Some l \<Rightarrow> segments @ [l])"

text \<open>
  The loop of \<^verbatim>\<open>update_segments\<close> over \<^verbatim>\<open>segments[:-1]\<close>. It carries the session and
  the local \<^verbatim>\<open>offset\<close>; \<^verbatim>\<open>self.timestamp_offset\<close> does not change inside the loop.
\<close>

fun complete_segments ::
  "real \<Rightarrow> raw_segment list \<Rightarrow> client \<times> real option \<Rightarrow> client \<times> real option" where
  "complete_segments duration [] acc = acc"
| "complete_segments duration (s # ss) (c, offset) =
     (let txt = rs_text s;
          c1 = c\<lparr>text_hist := text_hist c @ [txt]\<rparr>;
          start = timestamp_offset c1 + rs_start s;
          end = timestamp_offset c1 + min duration (rs_end s)
      in if end \<le> start then complete_segments duration ss (c1, offset)
         else if no_speech_thresh c1 < no_speech_prob s
         then complete_segments duration ss (c1, offset)
         else complete_segments duration ss
                (c1\<lparr>transcript := transcript c1 @ [format_segment start end txt]\<rparr>,
                 Some (min duration (rs_end s))))"

text \<open>The tentative segment: \<^verbatim>\<open>segments[-1]\<close>, kept when it passes the no-speech test.\<close>

definition tentative_segment ::
  "real \<Rightarrow> raw_segment \<Rightarrow> client \<Rightarrow> client \<times> segment option" where
  "tentative_segment duration l c =
     (if no_speech_prob l \<le> no_speech_thresh c
      then (let c1 = c\<lparr>current_out := current_out c @ rs_text l\<rparr>
            in (c1, Some (format_segment (timestamp_offset c1 + rs_start l)
                            (timestamp_offset c1 + min duration (rs_end l)) (current_out c1))))
      else (c, None))"

definition count_same_output :: "client \<Rightarrow> client" where
  "count_same_output c =
     (if strip (current_out c) = strip (prev_out c) \<and> current_out c \<noteq> []
      then c\<lparr>same_output_threshold := same_output_threshold c + 1\<rparr>
      else c\<lparr>same_output_threshold := 0\<rparr>)"

text \<open>The commit of a tentative text that has been repeated more than five times.\<close>

definition commit_repeated ::
  "real \<Rightarrow> client \<times> real option \<times> segment option \<Rightarrow> client \<times> real option \<times> segment option"
  where
  "commit_repeated duration acc =
     (case acc of (c, offset, last_segment) \<Rightarrow>
        if 5 < same_output_threshold c then
          (let c1 =
                 (if text_hist c = [] \<or>
                     lower (strip (last (text_hist c))) \<noteq> lower (strip (current_out c))
                  then c\<lparr>text_hist := text_hist c @ [current_out c],
                         transcript := transcript c @
                           [format_segment (timestamp_offset c) (timestamp_offset c + duration)
                              (current_out c)]\<rparr>
                  else c)
           in (c1\<lparr>current_out := [], same_output_threshold := 0\<rparr>, Some duration, None))
        else (c\<lparr>prev_out := current_out c\<rparr>, offset, last_segment))"

text \<open>\<^verbatim>\<open>update_segments\<close>; \<^verbatim>\<open>segments[-1]\<close> raises on an empty list.\<close>

definition update_segments ::
  "client \<Rightarrow> raw_segment list \<Rightarrow> real \<Rightarrow> py_error + client \<times> segment option" where
  "update_segments c segments duration =
     (let c0 = c\<lparr>current_out := []\<rparr>;
          (c1, offset) =
            (if 1 < length segments then complete_segments duration (butlast segments) (c0, None)
             else (c0, None))
      in if segments = [] then Inl IndexError
         else
           (let (c2, last_segment) = tentative_segment duration (last segments) c1;
                c3 = count_same_output c2;
                (c4, offset', last_segment') = commit_repeated duration (c3, offset, last_segment);
                c5 = (case offset' of None \<Rightarrow> c4
                      | Some off \<Rightarrow> c4\<lparr>timestamp_offset := timestamp_offset c4 + off\<rparr>)
            in Inr (c5, last_segment')))"

text \<open>
  \<^verbatim>\<open>get_previous_output\<close>, with the three clock readings taken as one instant \<open>now\<close>.
\<close>

definition get_previous_output :: "real \<Rightarrow> client \<Rightarrow> client \<times> segment list" where
  "get_previous_output now c =
     (let c1 = (if t_start c = None then c\<lparr>t_start := Some now\<rparr> else c);
          segments =
            (if now - the (t_start c1) < show_prev_out_thresh c1 then prepare_segments c1 None
             else []);
          c2 = (if text_hist c1 \<noteq> [] \<and> last (text_hist c1) \<noteq> []
                then (if add_pause_thresh c1 < now - the (t_start c1)
                      then c1\<lparr>text_hist := text_hist c1 @ [[]]\<rparr> else c1)
                else c1)
      in (c2, segments))"

text \<open>What the server writes to a websocket (\<^verbatim>\<open>json.dumps\<close> of a dictionary).\<close>

datatype message =
    Wait string real
  | ServerReady string
  | Disconnect string
  | Segments string "segment list"
  | InvalidModel string string

text \<open>
  \<^verbatim>\<open>handle_transcription_output\<close>: the session afterwards and the message sent, if any.
\<close>

definition handle_transcription_output ::
  "real \<Rightarrow> client \<Rightarrow> raw_segment list \<Rightarrow> real \<Rightarrow> py_error + client \<times> message option" where
  "handle_transcription_output now c result duration =
     (if result \<noteq> [] then
        (case update_segments (c\<lparr>t_start := None\<rparr>) result duration of
           Inl e \<Rightarrow> Inl e
         | Inr (c1, last_segment) \<Rightarrow>
             (let segments = prepare_segments c1 last_segment
              in Inr (c1, if segments \<noteq> [] then Some (Segments (client_uid c1) segments)
                          else None)))
      else
        (let (c1, segments) = get_previous_output now c
         in Inr (c1, if segments \<noteq> [] then Some (Segments (client_uid c1) segments)
                     else None)))"

text \<open>
  A run of stabilizer calls, each a batch of raw segments with the duration of its chunk;
  the run stops at the first exception and collects what the calls return.
\<close>

fun update_all ::
  "client \<Rightarrow> (raw_segment list \<times> real) list \<Rightarrow> py_error + client \<times> segment option list" where
  "update_all c [] = Inr (c, [])"
| "update_all c ((segments, duration) # calls) =
     (case update_segments c segments duration of
        Inl e \<Rightarrow> Inl e
      | Inr (c1, r) \<Rightarrow>
          (case update_all c1 calls of
             Inl e \<Rightarrow> Inl e
           | Inr (c2, rs) \<Rightarrow> Inr (c2, r # rs)))"

text \<open>\<^verbatim>\<open>disconnect\<close> and \<^verbatim>\<open>cleanup\<close> of a session; a sent message goes with its websocket.\<close>

definition disconnect :: "client \<Rightarrow> websocket \<times> message" where
  "disconnect c = (websocket c, Disconnect (client_uid c))"

definition cleanup_client :: "client \<Rightarrow> client" where
  "cleanup_client c = c\<lparr>exit_flag := True\<rparr>"

section \<open>The registry: \<^verbatim>\<open>ClientManager\<close>\<close>

text \<open>
  Both dictionaries are association lists in insertion order, as Python iterates them.
\<close>

record client_manager =
  clients :: "(websocket \<times> client) list"
  start_times :: "(websocket \<times> real) list"
  max_clients :: nat
  max_connection_time :: real

definition new_manager :: client_manager where
  "new_manager = \<lparr>clients = [], start_times = [], max_clients = 4, max_connection_time = 600\<rparr>"

definition add_client :: "client_manager \<Rightarrow> real \<Rightarrow> websocket \<Rightarrow> client \<Rightarrow> client_manager" where
  "add_client m now ws c =
     m\<lparr>clients := AList.update ws c (clients m),
       start_times := AList.update ws now (start_times m)\<rparr>"

text \<open>\<^verbatim>\<open>get_client\<close> returns \<^verbatim>\<open>False\<close> for an unknown websocket: here \<open>None\<close>.\<close>

definition get_client :: "client_manager \<Rightarrow> websocket \<Rightarrow> client option" where
  "get_client m ws = map_of (clients m) ws"

text \<open>\<^verbatim>\<open>remove_client\<close>: the registry afterwards and the session it cleaned up, if any.\<close>

definition remove_client :: "client_manager \<Rightarrow> websocket \<Rightarrow> client_manager \<times> client option" where
  "remove_client m ws =
     (m\<lparr>clients := AList.delete ws (clients m),
        start_times := AList.delete ws (start_times m)\<rparr>,
      map_option cleanup_client (map_of (clients m) ws))"

text \<open>The loop of \<^verbatim>\<open>get_wait_time\<close> over \<^verbatim>\<open>self.start_times.values()\<close>.\<close>

fun wait_time_loop :: "real \<Rightarrow> real \<Rightarrow> real list \<Rightarrow> real option \<Rightarrow> real option" where
  "wait_time_loop mct now [] wait_time = wait_time"
| "wait_time_loop mct now (start_time # rest) wait_time =
     (let current_client_time_remaining = mct - (now - start_time)
      in if wait_time = None \<or> current_client_time_remaining < the wait_time
         then wait_time_loop mct now rest (Some current_client_time_remaining)
         else wait_time_loop mct now rest wait_time)"

definition get_wait_time :: "client_manager \<Rightarrow> real \<Rightarrow> real" where
  "get_wait_time m now =
     (case wait_time_loop (max_connection_time m) now (map snd (start_times m)) None of
        Some wait_time \<Rightarrow> wait_time / 60
      | None \<Rightarrow> 0)"

text \<open>\<^verbatim>\<open>is_server_full\<close>: the answer and the message written to the new websocket.\<close>

definition is_server_full ::
  "client_manager \<Rightarrow> real \<Rightarrow> websocket \<Rightarrow> string \<Rightarrow> bool \<times> (websocket \<times> message) list" where
  "is_server_full m now ws uid =
     (if max_clients m \<le> length (clients m)
      then (True, [(ws, Wait uid (get_wait_time m now))])
      else (False, []))"

text \<open>
  \<^verbatim>\<open>is_client_timeout\<close>: both subscripts raise \<^verbatim>\<open>KeyError\<close> on a missing key; the
  registry itself is not changed.
\<close>

definition is_client_timeout ::
  "client_manager \<Rightarrow> real \<Rightarrow> websocket \<Rightarrow> py_error + bool \<times> (websocket \<times> message) list" where
  "is_client_timeout m now ws =
     (case map_of (start_times m) ws of
        None \<Rightarrow> Inl KeyError
      | Some start_time \<Rightarrow>
          (let elapsed_time = now - start_time
           in if max_connection_time m \<le> elapsed_time
              then (case map_of (clients m) ws of
                      None \<Rightarrow> Inl KeyError
                    | Some c \<Rightarrow> Inr (True, [disconnect c]))
              else Inr (False, [])))"

section \<open>The connection handler: \<^verbatim>\<open>TranscriptionServer\<close>\<close>

text \<open>
  The first message of a connection. Of the options only \<^verbatim>\<open>uid\<close> and \<^verbatim>\<open>model\<close> decide
  whether a session is created; a key that is absent is \<open>None\<close>. \<open>BadJson\<close> is a text
  that does not decode to an options dictionary and \<open>NoHandshake\<close> a connection closed
  before the message arrived.
\<close>

record options =
  opt_uid :: "string option"
  opt_model :: "string option"

datatype handshake = Options options | BadJson | NoHandshake

definition model_sizes :: "string list" where
  "model_sizes = [''small.en'', ''base.en'', ''medium.en'']"

text \<open>
  \<^verbatim>\<open>check_valid_model\<close>: an unknown size is answered with an \<^verbatim>\<open>ERROR\<close> message and
  \<^verbatim>\<open>None\<close>.
\<close>

definition check_valid_model ::
  "websocket \<Rightarrow> string \<Rightarrow> string \<Rightarrow> string option \<times> (websocket \<times> message) list" where
  "check_valid_model ws uid model_size =
     (if model_size \<notin> set model_sizes then (None, [(ws, InvalidModel uid model_size)])
      else (Some model_size, []))"

text \<open>
  The constructor of \<^verbatim>\<open>ServeClientFasterWhisper\<close>, with \<^verbatim>\<open>os.path.exists\<close> as the
  argument \<open>path_exists\<close>. For a model that is not a path, \<^verbatim>\<open>os.path.join\<close> is applied
  to the result of \<^verbatim>\<open>check_valid_model\<close> and raises on \<^verbatim>\<open>None\<close>. Loading the model is
  the business of the recognition library and is taken to succeed; the constructor then
  answers \<^verbatim>\<open>SERVER_READY\<close>.
\<close>

definition serve_client_init ::
  "(string \<Rightarrow> bool) \<Rightarrow> websocket \<Rightarrow> string \<Rightarrow> string \<Rightarrow>
   (py_error + client) \<times> (websocket \<times> message) list" where
  "serve_client_init path_exists ws uid model =
     (if \<not> path_exists model then
        (case check_valid_model ws uid model of
           (None, sent) \<Rightarrow> (Inl TypeError, sent)
         | (Some model_size, sent) \<Rightarrow> (Inr (new_client ws uid), sent @ [(ws, ServerReady uid)]))
      else (Inr (new_client ws uid), [(ws, ServerReady uid)]))"

text \<open>
  \<^verbatim>\<open>initialize_client\<close>: a custom model path that exists replaces the \<^verbatim>\<open>model\<close> option;
  the subscripts \<^verbatim>\<open>options["uid"]\<close> and \<^verbatim>\<open>options["model"]\<close> raise on a missing key; the
  session is registered once its constructor has returned.
\<close>

definition initialize_client ::
  "(string \<Rightarrow> bool) \<Rightarrow> string option \<Rightarrow> client_manager \<Rightarrow> real \<Rightarrow> websocket \<Rightarrow> options \<Rightarrow>
   (py_error + client_manager) \<times> (websocket \<times> message) list" where
  "initialize_client path_exists model_path m now ws opts =
     (let opts1 =
            (case model_path of
               None \<Rightarrow> opts
             | Some p \<Rightarrow> if path_exists p then opts\<lparr>opt_model := Some p\<rparr> else opts)
      in case opt_uid opts1 of
           None \<Rightarrow> (Inl KeyError, [])
         | Some uid \<Rightarrow>
             (case opt_model opts1 of
                None \<Rightarrow> (Inl KeyError, [])
              | Some model \<Rightarrow>
                  (case serve_client_init path_exists ws uid model of
                     (Inl e, sent) \<Rightarrow> (Inl e, sent)
                   | (Inr c, sent) \<Rightarrow> (Inr (add_client m now ws c), sent))))"

text \<open>
  \<^verbatim>\<open>handle_new_connection\<close>: whether the connection goes on, the registry and the
  messages sent. Every exception is caught and answered with \<^verbatim>\<open>False\<close>. Without a
  \<^verbatim>\<open>uid\<close> the subscript \<^verbatim>\<open>options["uid"]\<close> raises, in \<^verbatim>\<open>is_server_full\<close> on a full server
  and in \<^verbatim>\<open>initialize_client\<close> otherwise, before anything is sent. A full server answers
  \<^verbatim>\<open>WAIT\<close> and no session is created.
\<close>

definition handle_new_connection ::
  "(string \<Rightarrow> bool) \<Rightarrow> string option \<Rightarrow> client_manager \<Rightarrow> real \<Rightarrow> websocket \<Rightarrow> handshake \<Rightarrow>
   bool \<times> client_manager \<times> (websocket \<times> message) list" where
  "handle_new_connection path_exists model_path m now ws hs =
     (case hs of
        BadJson \<Rightarrow> (False, m, [])
      | NoHandshake \<Rightarrow> (False, m, [])
      | Options opts \<Rightarrow>
          (case opt_uid opts of
             None \<Rightarrow> (False, m, [])
           | Some uid \<Rightarrow>
               (case is_server_full m now ws uid of
                  (True, sent) \<Rightarrow> (False, m, sent)
                | (False, sent) \<Rightarrow>
                    (case initialize_client path_exists model_path m now ws opts of
                       (Inl e, sent1) \<Rightarrow> (False, m, sent @ sent1)
                     | (Inr m1, sent1) \<Rightarrow> (True, m1, sent @ sent1)))))"

text \<open>What \<^verbatim>\<open>websocket.recv()\<close> yields: audio, the end marker, or a closed connection.\<close>

datatype incoming = Frame "real list" | EndOfAudio | Closed

definition process_audio_frames ::
  "client_manager \<Rightarrow> websocket \<Rightarrow> incoming \<Rightarrow> py_error + bool \<times> client_manager" where
  "process_audio_frames m ws inc =
     (case inc of
        Closed \<Rightarrow> Inl ConnectionClosed
      | EndOfAudio \<Rightarrow> Inr (False, m)
      | Frame frame_np \<Rightarrow>
          (case get_client m ws of
             None \<Rightarrow> Inl AttributeError
           | Some c \<Rightarrow>
               (case add_frames c frame_np of
                  Inl e \<Rightarrow> Inl e
                | Inr c1 \<Rightarrow> Inr (True, m\<lparr>clients := AList.update ws c1 (clients m)\<rparr>))))"

text \<open>\<^verbatim>\<open>TranscriptionServer.cleanup\<close>.\<close>

definition cleanup :: "client_manager \<Rightarrow> websocket \<Rightarrow> client_manager" where
  "cleanup m ws = (if get_client m ws \<noteq> None then fst (remove_client m ws) else m)"

text \<open>
  The loop of \<^verbatim>\<open>recv_audio\<close>. Each round reads the clock for the lifetime check and
  then receives one message; the list holds the rounds that take place, and the loop is
  \<open>Pending\<close> when it has consumed them all. The state is the registry and the log of
  messages sent, oldest first.
\<close>

datatype loop_end = Pending | TimedOut | Ended | Raised py_error

fun recv_loop ::
  "client_manager \<times> (websocket \<times> message) list \<Rightarrow> websocket \<Rightarrow> (real \<times> incoming) list \<Rightarrow>
   loop_end \<times> client_manager \<times> (websocket \<times> message) list" where
  "recv_loop (m, wire) ws [] = (Pending, m, wire)"
| "recv_loop (m, wire) ws ((now, inc) # rounds) =
     (case is_client_timeout m now ws of
        Inl e \<Rightarrow> (Raised e, m, wire)
      | Inr (True, sent) \<Rightarrow> (TimedOut, m, wire @ sent)
      | Inr (False, sent) \<Rightarrow>
          (case process_audio_frames m ws inc of
             Inl e \<Rightarrow> (Raised e, m, wire @ sent)
           | Inr (False, m1) \<Rightarrow> (Ended, m1, wire @ sent)
           | Inr (True, m1) \<Rightarrow> recv_loop (m1, wire @ sent) ws rounds))"

text \<open>
  \<^verbatim>\<open>recv_audio\<close> for an admitted connection: the loop, and the \<^verbatim>\<open>finally\<close> block once
  the loop is left.
\<close>

definition recv_audio ::
  "client_manager \<times> (websocket \<times> message) list \<Rightarrow> websocket \<Rightarrow> (real \<times> incoming) list \<Rightarrow>
   loop_end \<times> client_manager \<times> (websocket \<times> message) list" where
  "recv_audio st ws rounds =
     (case recv_loop st ws rounds of
        (Pending, m, wire) \<Rightarrow> (Pending, m, wire)
      | (e, m, wire) \<Rightarrow> (e, cleanup m ws, wire))"

section \<open>Inputs and notions named in the statements\<close>

text \<open>The two raw segments of the end-to-end scenario.\<close>

definition hi :: raw_segment where
  "hi = \<lparr>rs_start = 0, rs_end = 1, rs_text = ''hi'', no_speech_prob = 1 / 10\<rparr>"

definition there :: raw_segment where
  "there = \<lparr>rs_start = 1, rs_end = 19 / 10, rs_text = ''there'', no_speech_prob = 1 / 10\<rparr>"

text \<open>
  One call of \<^verbatim>\<open>update_segments\<close>, described field by field. A complete segment is
  committable when it is not empty after clipping to the chunk and passes the no-speech
  test; \<open>complete_entry\<close> is the entry it is committed as, and \<open>complete_offset\<close> the
  offset the loop leaves behind.
\<close>

definition committable :: "client \<Rightarrow> real \<Rightarrow> raw_segment \<Rightarrow> bool" where
  "committable c duration s =
     (timestamp_offset c + rs_start s < timestamp_offset c + min duration (rs_end s) \<and>
      no_speech_prob s \<le> no_speech_thresh c)"

definition complete_entry :: "client \<Rightarrow> real \<Rightarrow> raw_segment \<Rightarrow> segment" where
  "complete_entry c duration s =
     format_segment (timestamp_offset c + rs_start s)
       (timestamp_offset c + min duration (rs_end s)) (rs_text s)"

definition complete_offset :: "client \<Rightarrow> real \<Rightarrow> raw_segment list \<Rightarrow> real option" where
  "complete_offset c duration ss =
     (if filter (committable c duration) ss = [] then None
      else Some (min duration (rs_end (last (filter (committable c duration) ss)))))"

text \<open>
  The tentative text of a call (\<^verbatim>\<open>current_out\<close> after the no-speech test of the last
  segment), the value of the repeat counter once it has been compared with \<^verbatim>\<open>prev_out\<close>,
  and the tentative segment.
\<close>

definition pending_text :: "client \<Rightarrow> raw_segment list \<Rightarrow> string" where
  "pending_text c segments =
     (if no_speech_prob (last segments) \<le> no_speech_thresh c then rs_text (last segments) else [])"

definition repeat_count :: "client \<Rightarrow> raw_segment list \<Rightarrow> nat" where
  "repeat_count c segments =
     (if strip (pending_text c segments) = strip (prev_out c) \<and> pending_text c segments \<noteq> []
      then same_output_threshold c + 1 else 0)"

definition tentative_entry :: "client \<Rightarrow> real \<Rightarrow> raw_segment list \<Rightarrow> segment option" where
  "tentative_entry c duration segments =
     (if no_speech_prob (last segments) \<le> no_speech_thresh c
      then Some (format_segment (timestamp_offset c + rs_start (last segments))
                   (timestamp_offset c + min duration (rs_end (last segments)))
                   (rs_text (last segments)))
      else None)"

text \<open>The session after one call and the value the call returns.\<close>

definition stabilized :: "client \<Rightarrow> raw_segment list \<Rightarrow> real \<Rightarrow> client \<times> segment option" where
  "stabilized c segments d =
     (let H = text_hist c @ map rs_text (butlast segments);
          T = transcript c @
              map (complete_entry c d) (filter (committable c d) (butlast segments));
          cur = pending_text c segments;
          k = repeat_count c segments
      in if 5 < k then
           (if H = [] \<or> lower (strip (last H)) \<noteq> lower (strip cur)
            then (c\<lparr>current_out := [], same_output_threshold := 0, text_hist := H @ [cur],
                    transcript := T @ [format_segment (timestamp_offset c)
                                         (timestamp_offset c + d) cur],
                    timestamp_offset := timestamp_offset c + d\<rparr>, None)
            else (c\<lparr>current_out := [], same_output_threshold := 0, text_hist := H,
                    transcript := T, timestamp_offset := timestamp_offset c + d\<rparr>, None))
         else
           (c\<lparr>current_out := cur, prev_out := cur, same_output_threshold := k, text_hist := H,
              transcript := T,
              timestamp_offset :=
                (case complete_offset c d (butlast segments) of
                   None \<Rightarrow> timestamp_offset c
                 | Some off \<Rightarrow> timestamp_offset c + off)\<rparr>,
            tentative_entry c d segments))"

text \<open>A segment that fails the no-speech test, and one that passes it.\<close>

definition noise :: raw_segment where
  "noise = \<lparr>rs_start = 0, rs_end = 1, rs_text = ''hm'', no_speech_prob = 9 / 10\<rparr>"

definition hello :: raw_segment where
  "hello = \<lparr>rs_start = 0, rs_end = 19 / 10, rs_text = ''hello'', no_speech_prob = 1 / 10\<rparr>"

text \<open>The thousandths that \<open>fmt3\<close> writes, as a number.\<close>

definition round3 :: "real \<Rightarrow> int" where
  "round3 x =
     (if x < 0 then - round_half_even (\<bar>x\<bar> * 1000) else round_half_even (\<bar>x\<bar> * 1000))"

text \<open>
  A call as the stabilizer expects it: a non-empty batch sorted by start, no start
  negative, and a duration that is not negative.
\<close>

definition wf_call :: "raw_segment list \<times> real \<Rightarrow> bool" where
  "wf_call call =
     (case call of (segments, d) \<Rightarrow>
        segments \<noteq> [] \<and> 0 \<le> d \<and>
        sorted_wrt (\<lambda>a b. rs_start a \<le> rs_start b) segments \<and>
        list_all (\<lambda>s. 0 \<le> rs_start s) segments)"

text \<open>
  What every call keeps: no entry starts after the cursor, and no entry ends before it
  starts (both read from the stored strings).
\<close>

definition transcript_inv :: "client \<Rightarrow> bool" where
  "transcript_inv c =
     list_all (\<lambda>e. millis (seg_start e) \<le> round3 (timestamp_offset c) \<and>
                   millis (seg_start e) \<le> millis (seg_end e)) (transcript c)"

text \<open>The entry a call commits for a repeated tentative text, if any.\<close>

definition repeated_entry :: "client \<Rightarrow> raw_segment list \<Rightarrow> real \<Rightarrow> segment list" where
  "repeated_entry c segments d =
     (if 5 < repeat_count c segments \<and>
         (text_hist c @ map rs_text (butlast segments) = [] \<or>
          lower (strip (last (text_hist c @ map rs_text (butlast segments)))) \<noteq>
          lower (strip (pending_text c segments)))
      then [format_segment (timestamp_offset c) (timestamp_offset c + d)
              (pending_text c segments)]
      else [])"

text \<open>Segments and states of the runs that the claims are tested on.\<close>

definition seg_a :: raw_segment where
  "seg_a = \<lparr>rs_start = 1 / 2, rs_end = 1, rs_text = ''a'', no_speech_prob = 1 / 10\<rparr>"

definition seg_b :: raw_segment where
  "seg_b = \<lparr>rs_start = 1, rs_end = 19 / 10, rs_text = ''b'', no_speech_prob = 1 / 10\<rparr>"

definition seg_c :: raw_segment where
  "seg_c = \<lparr>rs_start = 1, rs_end = 2, rs_text = ''c'', no_speech_prob = 1 / 10\<rparr>"

definition ab_entry :: "nat \<Rightarrow> segment" where
  "ab_entry i = format_segment (real i + 1 / 2) (real i + 1) ''a''"

definition ab_state :: "nat \<Rightarrow> client" where
  "ab_state m =
     (new_client 0 ''u1'')
       \<lparr>current_out := ''b'', prev_out := ''b'', text_hist := replicate (Suc m) ''a'',
        transcript := map ab_entry [0..<Suc m], same_output_threshold := m,
        timestamp_offset := real (Suc m)\<rparr>"

section \<open>The audio window: properties\<close>

text \<open>
  \<^bold>\<open>C1\<close>. The claim: an append to a window that already holds more than 45 seconds drops
  the oldest 30 seconds and advances \<^verbatim>\<open>frames_offset\<close> by 30. The code does not do so on
  this input: a window of 720001 silent samples (just over 45 seconds at 16 kHz) keeps all
  its samples when one more arrives, and \<^verbatim>\<open>frames_offset\<close> stays 0, because the guard
  compares the first sample, not the length, with \<open>45 * RATE\<close>.
\<close>

theorem add_frames_long_silent_window:
  "45 * RATE < length (0 # replicate 720000 (0::real)) \<and>
   add_frames ((new_client 0 ''u1'')\<lparr>frames_np := Some (0 # replicate 720000 0)\<rparr>) [0] =
     Inr ((new_client 0 ''u1'')\<lparr>frames_np := Some (0 # replicate 720000 0 @ [0])\<rparr>) \<and>
   frames_offset ((new_client 0 ''u1'')\<lparr>frames_np := Some (0 # replicate 720000 0 @ [0])\<rparr>) = 0 \<and>
   45 * RATE < length (0 # replicate 720000 (0::real) @ [0])"
  by (simp add: add_frames_def store_frames_def RATE_def new_client_def)

text \<open>An append never leaves the cursor before the start of the window.\<close>

lemma add_frames_cursor:
  assumes "add_frames c frame_np = Inr c1" and "frames_offset c \<le> timestamp_offset c"
  shows "frames_offset c1 \<le> timestamp_offset c1"
  using assms
  by (auto simp: add_frames_def store_frames_def trim_window_def Let_def
      split: option.splits list.splits if_splits)

text \<open>
  \<^bold>\<open>C6\<close>. In a window whose cursor is not before its origin, the stall clip fires exactly
  when the window length minus \<open>(timestamp_offset - frames_offset) * RATE\<close> exceeds 25
  seconds of samples; it then sets the cursor to the origin plus the window's duration
  minus 5, which is not before the origin; otherwise the session is unchanged.
\<close>

theorem clip_audio_if_stalled:
  assumes "frames_np c = Some w" and "frames_offset c \<le> timestamp_offset c"
  shows "clip_audio_if_no_valid_segment c =
           (if 25 * real RATE <
               real (length w) - (timestamp_offset c - frames_offset c) * real RATE
            then Inr (c\<lparr>timestamp_offset := frames_offset c + real (length w) / real RATE - 5\<rparr>)
            else Inr c) \<and>
         (25 * real RATE < real (length w) - (timestamp_offset c - frames_offset c) * real RATE
          \<longrightarrow> frames_offset c \<le> frames_offset c + real (length w) / real RATE - 5)"
proof -
  let ?x = "(timestamp_offset c - frames_offset c) * real RATE"
  have x0: "0 \<le> ?x" using assms(2) by simp
  then have f0: "0 \<le> \<lfloor>?x\<rfloor>" by simp
  obtain k where k: "\<lfloor>?x\<rfloor> = int k"
    using f0 zero_le_imp_eq_int by blast
  have "length (slice_from (py_int ?x) w) = length w - k"
    using x0 k by (simp add: slice_from_def py_int_def)
  then have "25 * RATE < length (slice_from (py_int ?x) w) \<longleftrightarrow>
        int (25 * RATE + k) < int (length w)"
    unfolding of_nat_less_iff by (simp add: less_diff_conv)
  also have "int (25 * RATE + k) = int (25 * RATE) + \<lfloor>?x\<rfloor>"
    using k by simp
  finally have "25 * RATE < length (slice_from (py_int ?x) w) \<longleftrightarrow>
        int (25 * RATE) + \<lfloor>?x\<rfloor> < int (length w)" .
  also have "\<dots> \<longleftrightarrow> \<lfloor>?x\<rfloor> < int (length w) - int (25 * RATE)" by linarith
  also have "\<dots> \<longleftrightarrow> ?x < of_int (int (length w) - int (25 * RATE))"
    by (rule floor_less_iff)
  also have "\<dots> \<longleftrightarrow> 25 * real RATE < real (length w) - ?x" by auto
  finally have iff: "25 * RATE < length (slice_from (py_int ?x) w) \<longleftrightarrow>
        25 * real RATE < real (length w) - ?x" .
  have clip: "clip_audio_if_no_valid_segment c =
           (if 25 * real RATE < real (length w) - ?x
            then Inr (c\<lparr>timestamp_offset := frames_offset c + real (length w) / real RATE - 5\<rparr>)
            else Inr c)"
    using assms(1) iff by (simp add: clip_audio_if_no_valid_segment_def Let_def)
  have "frames_offset c \<le> frames_offset c + real (length w) / real RATE - 5"
    if "25 * real RATE < real (length w) - ?x"
  proof -
    from that x0 have "25 * real RATE < real (length w)" by linarith
    then have "25 < real (length w) / real RATE" by (simp add: RATE_def)
    then show ?thesis by simp
  qed
  with clip show ?thesis by blast
qed

text \<open>
  A window of 30 seconds with the cursor at its origin is clipped to 25 seconds; a window
  of 2 seconds is left alone.
\<close>

theorem clip_audio_if_stalled_witness:
  "clip_audio_if_no_valid_segment ((new_client 0 ''u1'')\<lparr>frames_np := Some (replicate 480000 0)\<rparr>) =
     Inr ((new_client 0 ''u1'')\<lparr>frames_np := Some (replicate 480000 0), timestamp_offset := 25\<rparr>) \<and>
   clip_audio_if_no_valid_segment ((new_client 0 ''u1'')\<lparr>frames_np := Some (replicate 32000 0)\<rparr>) =
     Inr ((new_client 0 ''u1'')\<lparr>frames_np := Some (replicate 32000 0)\<rparr>)"
proof -
  let ?c = "(new_client 0 ''u1'')\<lparr>frames_np := Some (replicate 480000 0)\<rparr>"
  let ?d = "(new_client 0 ''u1'')\<lparr>frames_np := Some (replicate 32000 0)\<rparr>"
  have c: "frames_np ?c = Some (replicate 480000 0)" "frames_offset ?c \<le> timestamp_offset ?c"
    by (simp_all add: new_client_def)
  have d: "frames_np ?d = Some (replicate 32000 0)" "frames_offset ?d \<le> timestamp_offset ?d"
    by (simp_all add: new_client_def)
  from clip_audio_if_stalled [OF c] clip_audio_if_stalled [OF d]
  show ?thesis by (simp add: RATE_def new_client_def)
qed

section \<open>The registry: properties\<close>

text \<open>
  A client that names a uid and the model \<open>base.en\<close> is admitted by a server with a
  free slot, whatever the file system holds.
\<close>

lemma admit_base_en:
  assumes "length (clients m) < max_clients m"
  shows "handle_new_connection path_exists model_path m now ws
           (Options \<lparr>opt_uid = Some uid, opt_model = Some ''base.en''\<rparr>) =
         (True, add_client m now ws (new_client ws uid), [(ws, ServerReady uid)])"
proof -
  have ctor: "serve_client_init path_exists ws uid ''base.en'' =
      (Inr (new_client ws uid), [(ws, ServerReady uid)])"
    by (simp add: serve_client_init_def check_valid_model_def model_sizes_def)
  have ctor_path: "serve_client_init path_exists ws uid p =
      (Inr (new_client ws uid), [(ws, ServerReady uid)])" if "path_exists p" for p
    using that by (simp add: serve_client_init_def)
  have init: "initialize_client path_exists model_path m now ws
           \<lparr>opt_uid = Some uid, opt_model = Some ''base.en''\<rparr> =
      (Inr (add_client m now ws (new_client ws uid)), [(ws, ServerReady uid)])"
  proof (cases model_path)
    case None
    then show ?thesis by (simp add: initialize_client_def ctor)
  next
    case (Some p)
    then show ?thesis
      by (cases "path_exists p") (simp_all add: initialize_client_def ctor ctor_path)
  qed
  have "is_server_full m now ws uid = (False, [])"
    using assms by (simp add: is_server_full_def)
  then show ?thesis
    by (simp add: handle_new_connection_def init)
qed

lemma Min_insert_absorb:
  fixes a r :: real
  assumes "finite S"
  shows "Min (insert a (insert r S)) = (if r < a then Min (insert r S) else Min (insert a S))"
proof (cases "r < a")
  case True
  have "Min (insert r S) \<le> r" using assms by (simp add: Min_le)
  with True have "min a (Min (insert r S)) = Min (insert r S)" by simp
  moreover have "Min (insert a (insert r S)) = min a (Min (insert r S))"
    using assms by (simp add: Min.insert)
  ultimately show ?thesis using True by simp
next
  case False
  have "Min (insert a S) \<le> a" using assms by (simp add: Min_le)
  with False have "min r (Min (insert a S)) = Min (insert a S)" by simp
  moreover have "Min (insert r (insert a S)) = min r (Min (insert a S))"
    using assms by (simp add: Min.insert)
  ultimately show ?thesis using False by (simp add: insert_commute)
qed

lemma wait_time_loop_Some:
  "wait_time_loop mct now sts (Some a) =
     Some (Min (insert a ((\<lambda>st. mct - (now - st)) ` set sts)))"
proof (induction sts arbitrary: a)
  case Nil
  then show ?case by simp
next
  case (Cons st sts)
  have fin: "finite ((\<lambda>st. mct - (now - st)) ` set sts)" by simp
  show ?case
    using Cons.IH [of a] Cons.IH [of "mct - (now - st)"]
    by (simp add: Let_def Min_insert_absorb [OF fin])
qed

lemma get_wait_time_Min:
  "get_wait_time m now =
     (if start_times m = [] then 0
      else Min ((\<lambda>st. max_connection_time m - (now - st)) ` snd ` set (start_times m)) / 60)"
proof (cases "start_times m")
  case Nil
  then show ?thesis by (simp add: get_wait_time_def)
next
  case (Cons p ps)
  then show ?thesis
    by (simp add: get_wait_time_def wait_time_loop_Some image_image)
qed

text \<open>
  \<^bold>\<open>C4\<close>, as the code has it. The estimate is the least remaining lifetime over the
  start-time table, in minutes, and 0 for an empty table; a full server sends it in the
  \<^verbatim>\<open>WAIT\<close> message. Nothing floors it at 0: it is negative exactly when some session has
  been registered for longer than the maximum connection time.
\<close>

theorem get_wait_time_is_least_remaining:
  "get_wait_time m now =
     (if start_times m = [] then 0
      else Min ((\<lambda>st. max_connection_time m - (now - st)) ` snd ` set (start_times m)) / 60) \<and>
   (max_clients m \<le> length (clients m) \<longrightarrow>
      is_server_full m now ws uid = (True, [(ws, Wait uid (get_wait_time m now))])) \<and>
   (get_wait_time m now < 0 \<longleftrightarrow>
      (\<exists>st \<in> snd ` set (start_times m). max_connection_time m < now - st))"
proof -
  let ?S = "(\<lambda>st. max_connection_time m - (now - st)) ` snd ` set (start_times m)"
  have neg: "get_wait_time m now < 0 \<longleftrightarrow>
      (\<exists>st \<in> snd ` set (start_times m). max_connection_time m < now - st)"
  proof (cases "start_times m = []")
    case True
    then show ?thesis by (simp add: get_wait_time_Min)
  next
    case False
    then have ne: "?S \<noteq> {}" and fin: "finite ?S" by simp_all
    have "get_wait_time m now < 0 \<longleftrightarrow> Min ?S < 0"
      using False by (simp add: get_wait_time_Min)
    also have "\<dots> \<longleftrightarrow> (\<exists>x \<in> ?S. x < 0)"
      using Min_less_iff [OF fin ne] by simp
    also have "\<dots> \<longleftrightarrow> (\<exists>st \<in> snd ` set (start_times m). max_connection_time m < now - st)"
      by auto
    finally show ?thesis .
  qed
  show ?thesis
    using neg by (simp add: get_wait_time_Min is_server_full_def)
qed

theorem get_wait_time_is_least_remaining_witness:
  "max_clients (add_client (new_manager\<lparr>max_clients := 1\<rparr>) 0 7 (new_client 7 ''u1''))
     \<le> length (clients (add_client (new_manager\<lparr>max_clients := 1\<rparr>) 0 7 (new_client 7 ''u1''))) \<and>
   is_server_full (add_client (new_manager\<lparr>max_clients := 1\<rparr>) 0 7 (new_client 7 ''u1'')) 100 8 ''u2'' =
     (True, [(8, Wait ''u2'' (25 / 3))]) \<and>
   get_wait_time (add_client (new_manager\<lparr>max_clients := 1\<rparr>) 0 7 (new_client 7 ''u1'')) 100 = 25 / 3"
proof -
  let ?m = "add_client (new_manager\<lparr>max_clients := 1\<rparr>) 0 7 (new_client 7 ''u1'')"
  have full: "max_clients ?m \<le> length (clients ?m)"
    by (simp add: add_client_def new_manager_def)
  have st: "start_times ?m = [(7, 0)]" "max_connection_time ?m = 600"
    by (simp_all add: add_client_def new_manager_def)
  from get_wait_time_is_least_remaining [of ?m 100 8 "''u2''"] full st
  show ?thesis by simp
qed

text \<open>
  The claim's floor at 0 fails: one session registered at time 0 on a server with one
  slot, and a second client arriving at time 700, which is told to wait \<open>- 5 / 3\<close> minutes.
\<close>

theorem wait_time_negative_counterexample:
  "is_server_full (add_client (new_manager\<lparr>max_clients := 1\<rparr>) 0 7 (new_client 7 ''u1'')) 700 8 ''u2'' =
     (True, [(8, Wait ''u2'' (- (5 / 3)))]) \<and>
   get_wait_time (add_client (new_manager\<lparr>max_clients := 1\<rparr>) 0 7 (new_client 7 ''u1'')) 700 < 0"
  by (simp add: is_server_full_def get_wait_time_def add_client_def new_manager_def)

text \<open>
  \<^bold>\<open>C10\<close>. The lifetime check raises \<^verbatim>\<open>KeyError\<close> for a websocket with no entry in the
  start-time table, in particular for one that has just been removed; with an entry in
  both tables it returns a boolean.
\<close>

theorem is_client_timeout_unknown_websocket:
  "(map_of (start_times m) ws = None \<longrightarrow> is_client_timeout m now ws = Inl KeyError) \<and>
   is_client_timeout (fst (remove_client m ws)) now ws = Inl KeyError \<and>
   (map_of (start_times m) ws \<noteq> None \<and> map_of (clients m) ws \<noteq> None \<longrightarrow>
      (\<exists>b sent. is_client_timeout m now ws = Inr (b, sent)))"
  by (auto simp: is_client_timeout_def remove_client_def AList.delete_conv Let_def)

theorem is_client_timeout_unknown_websocket_witness:
  "map_of (start_times new_manager) 3 = None \<and> is_client_timeout new_manager 0 3 = Inl KeyError \<and>
   map_of (start_times (add_client new_manager 5 3 (new_client 3 ''u1''))) 3 \<noteq> None \<and>
   map_of (clients (add_client new_manager 5 3 (new_client 3 ''u1''))) 3 \<noteq> None \<and>
   (\<exists>b sent. is_client_timeout (add_client new_manager 5 3 (new_client 3 ''u1'')) 9 3 = Inr (b, sent))"
proof -
  have a: "map_of (start_times new_manager) 3 = None"
    by (simp add: new_manager_def)
  have b: "map_of (start_times (add_client new_manager 5 3 (new_client 3 ''u1''))) 3 \<noteq> None \<and>
   map_of (clients (add_client new_manager 5 3 (new_client 3 ''u1''))) 3 \<noteq> None"
    by (simp add: new_manager_def add_client_def)
  from a b is_client_timeout_unknown_websocket [of new_manager 3 0]
    is_client_timeout_unknown_websocket [of "add_client new_manager 5 3 (new_client 3 ''u1'')" 3 9]
  show ?thesis by blast
qed

text \<open>
  \<^bold>\<open>C7\<close>. For a websocket with an entry in both tables, the lifetime check returns true
  exactly when \<open>now - start_time\<close> has reached the maximum connection time, and then it
  writes \<^verbatim>\<open>DISCONNECT\<close> to the session's websocket while the session is still registered;
  the loop of \<^verbatim>\<open>recv_audio\<close> ends on that, and only its \<^verbatim>\<open>finally\<close> block removes the
  session. With a maximum of 600 the check at \<open>t0 + 599\<close> is false and a round at
  \<open>t0 + 601\<close> ends with the session removed.
\<close>

theorem lifetime_check:
  assumes "map_of (start_times m) ws = Some t0" and "map_of (clients m) ws = Some c"
  shows "is_client_timeout m now ws =
           Inr (max_connection_time m \<le> now - t0,
                if max_connection_time m \<le> now - t0 then [(websocket c, Disconnect (client_uid c))]
                else []) \<and>
         (max_connection_time m \<le> now - t0 \<longrightarrow>
            recv_loop (m, wire) ws ((now, inc) # rounds) =
              (TimedOut, m, wire @ [(websocket c, Disconnect (client_uid c))]) \<and>
            get_client m ws = Some c \<and>
            recv_audio (m, wire) ws ((now, inc) # rounds) =
              (TimedOut, fst (remove_client m ws), wire @ [(websocket c, Disconnect (client_uid c))]) \<and>
            get_client (fst (remove_client m ws)) ws = None \<and>
            map_of (start_times (fst (remove_client m ws))) ws = None) \<and>
         (max_connection_time m = 600 \<longrightarrow>
            is_client_timeout m (t0 + 599) ws = Inr (False, []) \<and>
            recv_loop (m, wire) ws [(t0 + 601, inc)] =
              (TimedOut, m, wire @ [(websocket c, Disconnect (client_uid c))]) \<and>
            recv_audio (m, wire) ws [(t0 + 601, inc)] =
              (TimedOut, fst (remove_client m ws), wire @ [(websocket c, Disconnect (client_uid c))]))"
proof -
  have check: "is_client_timeout m t ws =
           Inr (max_connection_time m \<le> t - t0,
                if max_connection_time m \<le> t - t0 then [(websocket c, Disconnect (client_uid c))]
                else [])" for t
    using assms by (simp add: is_client_timeout_def disconnect_def Let_def)
  have loop: "recv_loop (m, wire) ws ((t, inc) # rs) =
              (TimedOut, m, wire @ [(websocket c, Disconnect (client_uid c))])"
    if "max_connection_time m \<le> t - t0" for t rs
    using that by (simp add: check)
  have present: "get_client m ws = Some c"
    using assms(2) by (simp add: get_client_def)
  have fin: "recv_audio (m, wire) ws ((t, inc) # rs) =
              (TimedOut, fst (remove_client m ws), wire @ [(websocket c, Disconnect (client_uid c))])"
    if "max_connection_time m \<le> t - t0" for t rs
    using loop [OF that] present by (simp add: recv_audio_def cleanup_def)
  have gone: "get_client (fst (remove_client m ws)) ws = None \<and>
            map_of (start_times (fst (remove_client m ws))) ws = None"
    by (simp add: get_client_def remove_client_def AList.delete_conv)
  have a: "is_client_timeout m (t0 + 599) ws = Inr (False, [])" if "max_connection_time m = 600"
    using that by (simp add: check)
  have b: "max_connection_time m \<le> (t0 + 601) - t0" if "max_connection_time m = 600"
    using that by simp
  show ?thesis
    using check [of now] loop [of now rounds] fin [of now rounds] present gone a
      loop [OF b, of "[]"] fin [OF b, of "[]"]
    by simp
qed

text \<open>
  A session admitted at time 100 by a fresh registry: registered and not timed out at
  699, disconnected and removed by a round at 701.
\<close>

theorem lifetime_check_witness:
  "handle_new_connection (\<lambda>p. False) None new_manager 100 7
       (Options \<lparr>opt_uid = Some ''u1'', opt_model = Some ''base.en''\<rparr>) =
     (True, add_client new_manager 100 7 (new_client 7 ''u1''), [(7, ServerReady ''u1'')]) \<and>
   is_client_timeout (add_client new_manager 100 7 (new_client 7 ''u1'')) 699 7 = Inr (False, []) \<and>
   get_client (add_client new_manager 100 7 (new_client 7 ''u1'')) 7 = Some (new_client 7 ''u1'') \<and>
   is_client_timeout (add_client new_manager 100 7 (new_client 7 ''u1'')) 701 7 =
     Inr (True, [(7, Disconnect ''u1'')]) \<and>
   recv_audio (add_client new_manager 100 7 (new_client 7 ''u1''), [(7, ServerReady ''u1'')]) 7
       [(701, Frame [0])] =
     (TimedOut, new_manager, [(7, ServerReady ''u1''), (7, Disconnect ''u1'')])"
proof -
  let ?m = "add_client new_manager 100 7 (new_client 7 ''u1'')"
  have h: "map_of (start_times ?m) 7 = Some 100" "map_of (clients ?m) 7 = Some (new_client 7 ''u1'')"
    by (simp_all add: add_client_def new_manager_def)
  have mct: "max_connection_time ?m = 600"
    by (simp add: add_client_def new_manager_def)
  have rm: "fst (remove_client ?m 7) = new_manager"
    by (simp add: remove_client_def add_client_def new_manager_def)
  have adm: "handle_new_connection (\<lambda>p. False) None new_manager 100 7
       (Options \<lparr>opt_uid = Some ''u1'', opt_model = Some ''base.en''\<rparr>) =
     (True, ?m, [(7, ServerReady ''u1'')])"
    by (rule admit_base_en) (simp add: new_manager_def)
  from lifetime_check [OF h, of 701 "[(7, ServerReady ''u1'')]" "Frame [0]" "[]"] mct rm adm
  show ?thesis
    by (simp add: new_client_def get_client_def h)
qed

section \<open>The stabilizer: properties\<close>

lemma fmt3_values:
  "fmt3 0 = ''0.000''" "fmt3 1 = ''1.000''" "fmt3 (19 / 10) = ''1.900''"
  by (simp_all add: fmt3_def round_half_even_def pad3_def digit_def show_nat.simps)

text \<open>
  \<^bold>\<open>C8\<close>. The end-to-end scenario: a session with uid \<open>u1\<close> is admitted, two seconds of
  audio arrive, and one poll yields the raw segments \<open>hi\<close> and \<open>there\<close> for a chunk of
  duration 2. The transcript gains exactly the entry \<open>0.000 .. 1.000 hi\<close>, the call returns
  the tentative segment \<open>there\<close>, which goes out after the committed entry, and
  \<^verbatim>\<open>timestamp_offset\<close> becomes 1.
\<close>

theorem end_to_end_hi_there:
  assumes "length frame = 32000"
  shows "handle_new_connection path_exists model_path new_manager now ws
             (Options \<lparr>opt_uid = Some ''u1'', opt_model = Some ''base.en''\<rparr>) =
           (True, add_client new_manager now ws (new_client ws ''u1''), [(ws, ServerReady ''u1'')]) \<and>
         process_audio_frames (add_client new_manager now ws (new_client ws ''u1'')) ws (Frame frame) =
           Inr (True, add_client new_manager now ws ((new_client ws ''u1'')\<lparr>frames_np := Some frame\<rparr>)) \<and>
         clip_audio_if_no_valid_segment ((new_client ws ''u1'')\<lparr>frames_np := Some frame\<rparr>) =
           Inr ((new_client ws ''u1'')\<lparr>frames_np := Some frame\<rparr>) \<and>
         get_audio_chunk_for_processing ((new_client ws ''u1'')\<lparr>frames_np := Some frame\<rparr>) =
           Inr (frame, 2) \<and>
         update_segments ((new_client ws ''u1'')\<lparr>frames_np := Some frame\<rparr>) [hi, there] 2 =
           Inr ((new_client ws ''u1'')
                  \<lparr>frames_np := Some frame, text_hist := [''hi''], current_out := ''there'',
                   prev_out := ''there'', timestamp_offset := 1,
                   transcript := [\<lparr>seg_start = ''0.000'', seg_end = ''1.000'', seg_text = ''hi''\<rparr>]\<rparr>,
                Some \<lparr>seg_start = ''1.000'', seg_end = ''1.900'', seg_text = ''there''\<rparr>) \<and>
         handle_transcription_output t ((new_client ws ''u1'')\<lparr>frames_np := Some frame\<rparr>) [hi, there] 2 =
           Inr ((new_client ws ''u1'')
                  \<lparr>frames_np := Some frame, text_hist := [''hi''], current_out := ''there'',
                   prev_out := ''there'', timestamp_offset := 1,
                   transcript := [\<lparr>seg_start = ''0.000'', seg_end = ''1.000'', seg_text = ''hi''\<rparr>]\<rparr>,
                Some (Segments ''u1''
                  [\<lparr>seg_start = ''0.000'', seg_end = ''1.000'', seg_text = ''hi''\<rparr>,
                   \<lparr>seg_start = ''1.000'', seg_end = ''1.900'', seg_text = ''there''\<rparr>]))"
proof -
  let ?c = "(new_client ws ''u1'')\<lparr>frames_np := Some frame\<rparr>"
  have adm: "handle_new_connection path_exists model_path new_manager now ws
             (Options \<lparr>opt_uid = Some ''u1'', opt_model = Some ''base.en''\<rparr>) =
           (True, add_client new_manager now ws (new_client ws ''u1''), [(ws, ServerReady ''u1'')])"
    by (rule admit_base_en) (simp add: new_manager_def)
  have app: "process_audio_frames (add_client new_manager now ws (new_client ws ''u1'')) ws (Frame frame) =
           Inr (True, add_client new_manager now ws ?c)"
    by (simp add: process_audio_frames_def get_client_def add_client_def new_manager_def
        add_frames_def store_frames_def new_client_def)
  have clip: "clip_audio_if_no_valid_segment ?c = Inr ?c"
    using assms
    by (simp add: clip_audio_if_no_valid_segment_def new_client_def slice_from_def py_int_def RATE_def)
  have chunk: "get_audio_chunk_for_processing ?c = Inr (frame, 2)"
    using assms
    by (simp add: get_audio_chunk_for_processing_def new_client_def slice_from_def py_int_def
        RATE_def Let_def)
  have upd: "update_segments ?c [hi, there] 2 =
           Inr ((new_client ws ''u1'')
                  \<lparr>frames_np := Some frame, text_hist := [''hi''], current_out := ''there'',
                   prev_out := ''there'', timestamp_offset := 1,
                   transcript := [\<lparr>seg_start = ''0.000'', seg_end = ''1.000'', seg_text = ''hi''\<rparr>]\<rparr>,
                Some \<lparr>seg_start = ''1.000'', seg_end = ''1.900'', seg_text = ''there''\<rparr>)"
    by (simp add: update_segments_def tentative_segment_def count_same_output_def
        commit_repeated_def format_segment_def fmt3_values hi_def there_def new_client_def
        strip_def is_space_def Let_def)
  have out: "handle_transcription_output t ?c [hi, there] 2 =
           Inr ((new_client ws ''u1'')
                  \<lparr>frames_np := Some frame, text_hist := [''hi''], current_out := ''there'',
                   prev_out := ''there'', timestamp_offset := 1,
                   transcript := [\<lparr>seg_start = ''0.000'', seg_end = ''1.000'', seg_text = ''hi''\<rparr>]\<rparr>,
                Some (Segments ''u1''
                  [\<lparr>seg_start = ''0.000'', seg_end = ''1.000'', seg_text = ''hi''\<rparr>,
                   \<lparr>seg_start = ''1.000'', seg_end = ''1.900'', seg_text = ''there''\<rparr>]))"
  proof -
    have eq: "?c\<lparr>t_start := None\<rparr> = ?c" by (simp add: new_client_def)
    show ?thesis
      unfolding handle_transcription_output_def eq upd
      by (simp add: prepare_segments_def new_client_def)
  qed
  from adm app clip chunk upd out show ?thesis by simp
qed

text \<open>The scenario with two seconds of silence as the audio.\<close>

theorem end_to_end_hi_there_witness:
  "length (replicate 32000 (0::real)) = 32000 \<and>
   update_segments ((new_client 0 ''u1'')\<lparr>frames_np := Some (replicate 32000 0)\<rparr>) [hi, there] 2 =
           Inr ((new_client 0 ''u1'')
                  \<lparr>frames_np := Some (replicate 32000 0), text_hist := [''hi''], current_out := ''there'',
                   prev_out := ''there'', timestamp_offset := 1,
                   transcript := [\<lparr>seg_start = ''0.000'', seg_end = ''1.000'', seg_text = ''hi''\<rparr>]\<rparr>,
                Some \<lparr>seg_start = ''1.000'', seg_end = ''1.900'', seg_text = ''there''\<rparr>)"
proof -
  have h: "length (replicate 32000 (0::real)) = 32000" by simp
  from end_to_end_hi_there [OF h, where ws = 0] h show ?thesis by blast
qed

lemma committable_cong [simp]:
  "committable (c\<lparr>text_hist := h\<rparr>) d = committable c d"
  "committable (c\<lparr>transcript := t\<rparr>) d = committable c d"
  "committable (c\<lparr>current_out := x\<rparr>) d = committable c d"
  by (simp_all add: committable_def fun_eq_iff)

lemma complete_entry_cong [simp]:
  "complete_entry (c\<lparr>text_hist := h\<rparr>) d = complete_entry c d"
  "complete_entry (c\<lparr>transcript := t\<rparr>) d = complete_entry c d"
  "complete_entry (c\<lparr>current_out := x\<rparr>) d = complete_entry c d"
  by (simp_all add: complete_entry_def fun_eq_iff)

lemma complete_segments_step:
  "complete_segments d (s # ss) (c, off) =
     (if committable c d s
      then complete_segments d ss
             (c\<lparr>text_hist := text_hist c @ [rs_text s],
                transcript := transcript c @ [complete_entry c d s]\<rparr>, Some (min d (rs_end s)))
      else complete_segments d ss (c\<lparr>text_hist := text_hist c @ [rs_text s]\<rparr>, off))"
proof (cases "committable c d s")
  case True
  then have "\<not> timestamp_offset c + min d (rs_end s) \<le> timestamp_offset c + rs_start s"
    and "\<not> no_speech_thresh c < no_speech_prob s"
    by (simp_all add: committable_def not_le not_less)
  with True show ?thesis
    by (simp add: complete_entry_def Let_def)
next
  case False
  then have "timestamp_offset c + min d (rs_end s) \<le> timestamp_offset c + rs_start s
     \<or> no_speech_thresh c < no_speech_prob s"
    unfolding committable_def by linarith
  with False show ?thesis
    by (auto simp: Let_def)
qed

lemma complete_segments_char:
  "complete_segments d ss (c, off) =
     (c\<lparr>text_hist := text_hist c @ map rs_text ss,
        transcript := transcript c @ map (complete_entry c d) (filter (committable c d) ss)\<rparr>,
      if filter (committable c d) ss = [] then off
      else Some (min d (rs_end (last (filter (committable c d) ss)))))"
proof (induction ss arbitrary: c off)
  case Nil
  then show ?case by simp
next
  case (Cons s ss)
  show ?case
    unfolding complete_segments_step Cons.IH
    by simp
qed

lemma update_segments_char:
  assumes "segments \<noteq> []"
  shows "update_segments c segments d = Inr (stabilized c segments d)"
proof -
  define H where "H = text_hist c @ map rs_text (butlast segments)"
  define T where "T = transcript c @
              map (complete_entry c d) (filter (committable c d) (butlast segments))"
  define cur where "cur = pending_text c segments"
  define k where "k = repeat_count c segments"
  define off where "off = complete_offset c d (butlast segments)"
  define c0 where "c0 = c\<lparr>current_out := []\<rparr>"
  define c1 where "c1 = c0\<lparr>text_hist := H, transcript := T\<rparr>"
  define c2 where "c2 = c1\<lparr>current_out := cur\<rparr>"
  define c3 where "c3 = c2\<lparr>same_output_threshold := k\<rparr>"
  have bl: "butlast segments = []" if "\<not> 1 < length segments"
    using that assms by (cases segments) auto
  have step1: "(if 1 < length segments
                then complete_segments d (butlast segments) (c0, None) else (c0, None)) = (c1, off)"
  proof (cases "1 < length segments")
    case True
    then show ?thesis
      unfolding complete_segments_char c1_def off_def H_def T_def c0_def complete_offset_def
      by simp
  next
    case False
    then show ?thesis
      unfolding c1_def off_def H_def T_def c0_def complete_offset_def
      by (simp add: bl)
  qed
  have step2: "tentative_segment d (last segments) c1 = (c2, tentative_entry c d segments)"
    unfolding tentative_segment_def c2_def c1_def c0_def cur_def pending_text_def
      tentative_entry_def
    by (simp add: Let_def)
  have step3: "count_same_output c2 = c3"
    unfolding count_same_output_def c3_def c2_def c1_def c0_def k_def repeat_count_def cur_def
    by simp
  have sel: "same_output_threshold c3 = k" "text_hist c3 = H" "current_out c3 = cur"
    "timestamp_offset c3 = timestamp_offset c" "transcript c3 = T"
    by (simp_all add: c3_def c2_def c1_def c0_def)
  have upd: "update_segments c segments d =
    (case commit_repeated d (c3, off, tentative_entry c d segments) of
       (c4, offset', last_segment') \<Rightarrow>
         Inr (case offset' of None \<Rightarrow> c4
              | Some x \<Rightarrow> c4\<lparr>timestamp_offset := timestamp_offset c4 + x\<rparr>, last_segment'))"
    unfolding update_segments_def Let_def c0_def [symmetric] step1
    using assms by (simp add: step2 step3)
  show ?thesis
  proof (cases "5 < k")
    case True
    show ?thesis
    proof (cases "H = [] \<or> lower (strip (last H)) \<noteq> lower (strip cur)")
      case dedup: True
      have "commit_repeated d (c3, off, tentative_entry c d segments) =
        (c3\<lparr>text_hist := H @ [cur],
            transcript := T @ [format_segment (timestamp_offset c) (timestamp_offset c + d) cur],
            current_out := [], same_output_threshold := 0\<rparr>, Some d, None)"
        unfolding commit_repeated_def using True dedup by (simp add: sel Let_def)
      then show ?thesis
        unfolding upd stabilized_def Let_def
          H_def [symmetric] T_def [symmetric] cur_def [symmetric] k_def [symmetric]
        using True dedup by (simp add: c3_def c2_def c1_def c0_def)
    next
      case nodedup: False
      have "commit_repeated d (c3, off, tentative_entry c d segments) =
        (c3\<lparr>current_out := [], same_output_threshold := 0\<rparr>, Some d, None)"
        unfolding commit_repeated_def using True nodedup by (simp add: sel Let_def)
      then show ?thesis
        unfolding upd stabilized_def Let_def
          H_def [symmetric] T_def [symmetric] cur_def [symmetric] k_def [symmetric]
        using True nodedup by (simp add: c3_def c2_def c1_def c0_def)
    qed
  next
    case False
    have "commit_repeated d (c3, off, tentative_entry c d segments) =
        (c3\<lparr>prev_out := cur\<rparr>, off, tentative_entry c d segments)"
      unfolding commit_repeated_def using False by (simp add: sel)
    then show ?thesis
      unfolding upd stabilized_def Let_def
        H_def [symmetric] T_def [symmetric] cur_def [symmetric] k_def [symmetric]
        off_def [symmetric]
      using False by (simp add: c3_def c2_def c1_def c0_def split: option.split)
  qed
qed

lemma repeat_count_pending_empty:
  "pending_text c segments = [] \<Longrightarrow> repeat_count c segments = 0"
  by (simp add: repeat_count_def)

text \<open>
  \<^bold>\<open>C5\<close>. In every call, the entries appended to the transcript are those of the
  complete segments at or below the no-speech threshold, followed by at most one entry for
  the repeated tentative text; a last segment above the threshold yields neither that
  entry nor a returned tentative segment.
\<close>

theorem no_speech_segments_filtered:
  assumes "segments \<noteq> []"
  shows "\<exists>c' r stab.
     update_segments c segments d = Inr (c', r) \<and>
     transcript c' =
       transcript c @ map (complete_entry c d) (filter (committable c d) (butlast segments)) @ stab \<and>
     (\<forall>s \<in> set (filter (committable c d) (butlast segments)).
        no_speech_prob s \<le> no_speech_thresh c) \<and>
     (stab = [] \<or>
      stab = [format_segment (timestamp_offset c) (timestamp_offset c + d) (rs_text (last segments))] \<and>
      no_speech_prob (last segments) \<le> no_speech_thresh c) \<and>
     (r = None \<or>
      r = Some (format_segment (timestamp_offset c + rs_start (last segments))
                 (timestamp_offset c + min d (rs_end (last segments))) (rs_text (last segments))) \<and>
      no_speech_prob (last segments) \<le> no_speech_thresh c) \<and>
     (no_speech_thresh c < no_speech_prob (last segments) \<longrightarrow> r = None \<and> stab = [])"
proof -
  let ?T = "map (complete_entry c d) (filter (committable c d) (butlast segments))"
  let ?st = "[format_segment (timestamp_offset c) (timestamp_offset c + d) (rs_text (last segments))]"
  let ?te = "Some (format_segment (timestamp_offset c + rs_start (last segments))
                 (timestamp_offset c + min d (rs_end (last segments))) (rs_text (last segments)))"
  obtain c' r where st: "stabilized c segments d = (c', r)"
    by (cases "stabilized c segments d")
  then have upd: "update_segments c segments d = Inr (c', r)"
    using update_segments_char [OF assms, of c d] by simp
  have filt: "\<forall>s \<in> set (filter (committable c d) (butlast segments)).
        no_speech_prob s \<le> no_speech_thresh c"
    by (simp add: committable_def)
  have fin: ?thesis
    if "transcript c' = transcript c @ ?T @ stab"
      and "stab = [] \<or> stab = ?st \<and> no_speech_prob (last segments) \<le> no_speech_thresh c"
      and "r = None \<or> r = ?te \<and> no_speech_prob (last segments) \<le> no_speech_thresh c"
      and "no_speech_thresh c < no_speech_prob (last segments) \<longrightarrow> r = None \<and> stab = []"
    for stab
    using that upd filt by blast
  show ?thesis
  proof (cases "no_speech_prob (last segments) \<le> no_speech_thresh c")
    case True
    then have cur: "pending_text c segments = rs_text (last segments)"
      by (simp add: pending_text_def)
    show ?thesis
    proof (cases "5 < repeat_count c segments")
      case k: True
      show ?thesis
      proof (cases "text_hist c @ map rs_text (butlast segments) = [] \<or>
          lower (strip (last (text_hist c @ map rs_text (butlast segments)))) \<noteq>
          lower (strip (pending_text c segments))")
        case dedup: True
        have "r = None" and "transcript c' = transcript c @ ?T @ ?st"
          using st k dedup cur unfolding stabilized_def Let_def by auto
        then show ?thesis
          using True by (intro fin [of ?st]) simp_all
      next
        case nodedup: False
        have "r = None" and "transcript c' = transcript c @ ?T @ []"
          using st k nodedup unfolding stabilized_def Let_def by auto
        then show ?thesis
          using True by (intro fin [of "[]"]) simp_all
      qed
    next
      case k: False
      have "r = ?te" and "transcript c' = transcript c @ ?T @ []"
        using st k True unfolding stabilized_def Let_def tentative_entry_def by auto
      then show ?thesis
        using True by (intro fin [of "[]"]) simp_all
    qed
  next
    case False
    then have "pending_text c segments = []"
      by (simp add: pending_text_def)
    then have k: "\<not> 5 < repeat_count c segments"
      by (simp add: repeat_count_pending_empty)
    have "r = None" and "transcript c' = transcript c @ ?T @ []"
      using st k False unfolding stabilized_def Let_def tentative_entry_def by auto
    then show ?thesis
      using False by (intro fin [of "[]"]) simp_all
  qed
qed

text \<open>Two segments above the threshold: nothing is committed, nothing is returned.\<close>

theorem no_speech_segments_filtered_witness:
  "[noise, noise] \<noteq> [] \<and>
   update_segments (new_client 0 ''u1'') [noise, noise] 2 =
     Inr ((new_client 0 ''u1'')\<lparr>text_hist := [''hm'']\<rparr>, None) \<and>
   transcript ((new_client 0 ''u1'')\<lparr>text_hist := [''hm'']\<rparr>) = []"
proof -
  have ne: "[noise, noise] \<noteq> []" by simp
  have "update_segments (new_client 0 ''u1'') [noise, noise] 2 =
     Inr ((new_client 0 ''u1'')\<lparr>text_hist := [''hm'']\<rparr>, None)"
    by (simp add: update_segments_def tentative_segment_def count_same_output_def
        commit_repeated_def noise_def new_client_def Let_def)
  with no_speech_segments_filtered [OF ne, of "new_client 0 ''u1''" 2] ne
  show ?thesis by (simp add: new_client_def)
qed

text \<open>
  \<^bold>\<open>C9\<close>. Every call appends the text of each segment but the last to the text
  history, whether or not the segment is committed, and then at most the tentative text.
  The commit of a repeated tentative text is suppressed exactly when the last entry of
  that grown history equals it up to surrounding blanks and case, and the pause marker of
  \<^verbatim>\<open>get_previous_output\<close> is appended exactly when the history is non-empty, its last
  entry is not blank and the pause has lasted longer than \<^verbatim>\<open>add_pause_thresh\<close>.
\<close>

theorem text_history_grows_before_filters:
  assumes "segments \<noteq> []"
  shows "(\<exists>c' r extra.
     update_segments c segments d = Inr (c', r) \<and>
     text_hist c' = text_hist c @ map rs_text (butlast segments) @ extra \<and>
     length (text_hist c) + (length segments - 1) \<le> length (text_hist c') \<and>
     (extra = [] \<or> extra = [pending_text c segments]) \<and>
     (extra \<noteq> [] \<longleftrightarrow>
        5 < repeat_count c segments \<and>
        (text_hist c @ map rs_text (butlast segments) = [] \<or>
         lower (strip (last (text_hist c @ map rs_text (butlast segments)))) \<noteq>
         lower (strip (pending_text c segments)))) \<and>
     transcript c' =
       transcript c @ map (complete_entry c d) (filter (committable c d) (butlast segments)) @
       (if extra = [] then []
        else [format_segment (timestamp_offset c) (timestamp_offset c + d)
                (pending_text c segments)])) \<and>
   text_hist (fst (get_previous_output now c)) =
     text_hist c @
     (if text_hist c \<noteq> [] \<and> last (text_hist c) \<noteq> [] \<and>
         add_pause_thresh c < now - (case t_start c of None \<Rightarrow> now | Some t \<Rightarrow> t)
      then [[]] else [])"
proof -
  let ?H = "text_hist c @ map rs_text (butlast segments)"
  let ?T = "map (complete_entry c d) (filter (committable c d) (butlast segments))"
  let ?cur = "pending_text c segments"
  let ?dedup = "?H = [] \<or> lower (strip (last ?H)) \<noteq> lower (strip ?cur)"
  obtain c' r where st: "stabilized c segments d = (c', r)"
    by (cases "stabilized c segments d")
  then have upd: "update_segments c segments d = Inr (c', r)"
    using update_segments_char [OF assms, of c d] by simp
  define extra where "extra = (if 5 < repeat_count c segments \<and> ?dedup then [?cur] else [])"
  have th: "text_hist c' = ?H @ extra"
    using st unfolding stabilized_def Let_def extra_def by (auto split: if_splits)
  have tr: "transcript c' = transcript c @ ?T @
       (if extra = [] then []
        else [format_segment (timestamp_offset c) (timestamp_offset c + d) ?cur])"
    using st unfolding stabilized_def Let_def extra_def by (auto split: if_splits)
  have len: "length (text_hist c) + (length segments - 1) \<le> length (text_hist c')"
    unfolding th by simp
  have ex: "extra = [] \<or> extra = [?cur]"
    and iff: "extra \<noteq> [] \<longleftrightarrow> 5 < repeat_count c segments \<and> ?dedup"
    unfolding extra_def by simp_all
  have stab: "\<exists>c' r extra.
     update_segments c segments d = Inr (c', r) \<and>
     text_hist c' = text_hist c @ map rs_text (butlast segments) @ extra \<and>
     length (text_hist c) + (length segments - 1) \<le> length (text_hist c') \<and>
     (extra = [] \<or> extra = [?cur]) \<and>
     (extra \<noteq> [] \<longleftrightarrow> 5 < repeat_count c segments \<and> ?dedup) \<and>
     transcript c' = transcript c @ ?T @
       (if extra = [] then []
        else [format_segment (timestamp_offset c) (timestamp_offset c + d) ?cur])"
    using upd th len ex iff tr
    by (intro exI [of _ c'] exI [of _ r] exI [of _ extra]) simp
  have pause: "text_hist (fst (get_previous_output now c)) =
     text_hist c @
     (if text_hist c \<noteq> [] \<and> last (text_hist c) \<noteq> [] \<and>
         add_pause_thresh c < now - (case t_start c of None \<Rightarrow> now | Some t \<Rightarrow> t)
      then [[]] else [])"
    by (cases "t_start c") (simp_all add: get_previous_output_def Let_def)
  from stab pause show ?thesis by blast
qed

text \<open>
  A segment above the threshold followed by a good one: the transcript stays empty and
  the text history holds the uncommitted text.
\<close>

theorem text_history_grows_before_filters_witness:
  "[noise, hello] \<noteq> [] \<and>
   update_segments (new_client 0 ''u1'') [noise, hello] 2 =
     Inr ((new_client 0 ''u1'')
            \<lparr>text_hist := [''hm''], current_out := ''hello'', prev_out := ''hello''\<rparr>,
          Some \<lparr>seg_start = ''0.000'', seg_end = ''1.900'', seg_text = ''hello''\<rparr>) \<and>
   transcript ((new_client 0 ''u1'')
            \<lparr>text_hist := [''hm''], current_out := ''hello'', prev_out := ''hello''\<rparr>) = []"
proof -
  have ne: "[noise, hello] \<noteq> []" by simp
  have "update_segments (new_client 0 ''u1'') [noise, hello] 2 =
     Inr ((new_client 0 ''u1'')
            \<lparr>text_hist := [''hm''], current_out := ''hello'', prev_out := ''hello''\<rparr>,
          Some \<lparr>seg_start = ''0.000'', seg_end = ''1.900'', seg_text = ''hello''\<rparr>)"
    by (simp add: update_segments_def tentative_segment_def count_same_output_def
        commit_repeated_def format_segment_def fmt3_values noise_def hello_def new_client_def
        strip_def is_space_def Let_def)
  with text_history_grows_before_filters [OF ne, of "new_client 0 ''u1''" 2 0] ne
  show ?thesis by (simp add: new_client_def)
qed

lemma update_all_append:
  "update_all c (xs @ ys) =
     (case update_all c xs of
        Inl e \<Rightarrow> Inl e
      | Inr (c1, rs) \<Rightarrow>
          (case update_all c1 ys of
             Inl e \<Rightarrow> Inl e
           | Inr (c2, rs') \<Rightarrow> Inr (c2, rs @ rs')))"
  by (induction xs arbitrary: c) (auto split: sum.splits prod.splits)

lemma stabilized_single_first:
  assumes "no_speech_prob l \<le> no_speech_thresh c" and "strip (rs_text l) \<noteq> strip (prev_out c)"
  shows "stabilized c [l] d =
           (c\<lparr>current_out := rs_text l, prev_out := rs_text l, same_output_threshold := 0\<rparr>,
            Some (format_segment (timestamp_offset c + rs_start l)
                    (timestamp_offset c + min d (rs_end l)) (rs_text l)))"
  using assms
  by (simp add: stabilized_def pending_text_def repeat_count_def tentative_entry_def
      complete_offset_def Let_def)

lemma stabilized_single_repeat:
  assumes "no_speech_prob l \<le> no_speech_thresh c" and "rs_text l \<noteq> []"
    and "prev_out c = rs_text l" and "same_output_threshold c < 5"
  shows "stabilized c [l] d =
           (c\<lparr>current_out := rs_text l, same_output_threshold := same_output_threshold c + 1\<rparr>,
            Some (format_segment (timestamp_offset c + rs_start l)
                    (timestamp_offset c + min d (rs_end l)) (rs_text l)))"
  using assms
  by (simp add: stabilized_def pending_text_def repeat_count_def tentative_entry_def
      complete_offset_def Let_def)

lemma stabilized_single_commit:
  assumes "no_speech_prob l \<le> no_speech_thresh c" and "rs_text l \<noteq> []"
    and "prev_out c = rs_text l" and "same_output_threshold c = 5"
  shows "stabilized c [l] d =
           (if text_hist c = [] \<or> lower (strip (last (text_hist c))) \<noteq> lower (strip (rs_text l))
            then (c\<lparr>current_out := [], same_output_threshold := 0,
                    text_hist := text_hist c @ [rs_text l],
                    transcript := transcript c @
                      [format_segment (timestamp_offset c) (timestamp_offset c + d) (rs_text l)],
                    timestamp_offset := timestamp_offset c + d\<rparr>, None)
            else (c\<lparr>current_out := [], same_output_threshold := 0,
                    timestamp_offset := timestamp_offset c + d\<rparr>, None))"
  using assms
  by (simp add: stabilized_def pending_text_def repeat_count_def Let_def)

lemma repeats_below_commit:
  assumes "no_speech_prob l \<le> no_speech_thresh c" and "rs_text l \<noteq> []" and "j + n \<le> 5"
  shows "update_all (c\<lparr>current_out := rs_text l, prev_out := rs_text l, same_output_threshold := j\<rparr>)
           (replicate n ([l], d)) =
         Inr (c\<lparr>current_out := rs_text l, prev_out := rs_text l, same_output_threshold := j + n\<rparr>,
              replicate n (Some (format_segment (timestamp_offset c + rs_start l)
                    (timestamp_offset c + min d (rs_end l)) (rs_text l))))"
  using assms(3)
proof (induction n arbitrary: j)
  case 0
  then show ?case by simp
next
  case (Suc n)
  let ?c = "c\<lparr>current_out := rs_text l, prev_out := rs_text l, same_output_threshold := j\<rparr>"
  have "update_segments ?c [l] d = Inr (stabilized ?c [l] d)"
    by (simp add: update_segments_char)
  also have "stabilized ?c [l] d =
     (c\<lparr>current_out := rs_text l, prev_out := rs_text l, same_output_threshold := Suc j\<rparr>,
      Some (format_segment (timestamp_offset c + rs_start l)
                    (timestamp_offset c + min d (rs_end l)) (rs_text l)))"
    using stabilized_single_repeat [of l ?c d] assms(1,2) Suc.prems by simp
  finally have step: "update_segments ?c [l] d =
     Inr (c\<lparr>current_out := rs_text l, prev_out := rs_text l, same_output_threshold := Suc j\<rparr>,
      Some (format_segment (timestamp_offset c + rs_start l)
                    (timestamp_offset c + min d (rs_end l)) (rs_text l)))" .
  have "Suc j + n \<le> 5" using Suc.prems by simp
  from Suc.IH [OF this] step show ?case by simp
qed

lemma six_repeats:
  assumes "no_speech_prob l \<le> no_speech_thresh c" and "rs_text l \<noteq> []"
    and "strip (rs_text l) \<noteq> strip (prev_out c)"
  shows "update_all c (replicate 6 ([l], d)) =
           Inr (c\<lparr>current_out := rs_text l, prev_out := rs_text l, same_output_threshold := 5\<rparr>,
                replicate 6 (Some (format_segment (timestamp_offset c + rs_start l)
                    (timestamp_offset c + min d (rs_end l)) (rs_text l))))"
proof -
  let ?t = "Some (format_segment (timestamp_offset c + rs_start l)
                    (timestamp_offset c + min d (rs_end l)) (rs_text l))"
  let ?c0 = "c\<lparr>current_out := rs_text l, prev_out := rs_text l, same_output_threshold := 0\<rparr>"
  let ?c5 = "c\<lparr>current_out := rs_text l, prev_out := rs_text l, same_output_threshold := 5\<rparr>"
  have first: "update_segments c [l] d = Inr (?c0, ?t)"
    using stabilized_single_first [OF assms(1,3), of d] by (simp add: update_segments_char)
  have five: "update_all ?c0 (replicate 5 ([l], d)) = Inr (?c5, replicate 5 ?t)"
    using repeats_below_commit [OF assms(1,2), of 0 5 d] by simp
  have r6: "replicate 6 ([l], d) = ([l], d) # replicate 5 ([l], d)"
    and t6: "replicate 6 ?t = ?t # replicate 5 ?t"
    by (simp_all add: numeral_eq_Suc)
  show ?thesis
    unfolding r6 t6 using first five by simp
qed

text \<open>
  \<^bold>\<open>C2\<close>, as the code has it. Take a tentative segment that passes the no-speech test,
  whose text is not empty and differs, blanks apart, from the previous tentative text (as
  in a fresh session), and feed it alone, with the same duration, again and again. The
  first six calls commit nothing, return the tentative segment and leave the counter at
  5. The seventh call returns nothing, resets the counter to 0, advances
  \<^verbatim>\<open>timestamp_offset\<close> by the whole duration, and commits one entry from
  \<^verbatim>\<open>timestamp_offset\<close> to \<^verbatim>\<open>timestamp_offset + duration\<close>, unless the last entry of the
  text history equals the text up to blanks and case, in which case it commits none.
\<close>

theorem repeated_tentative_commits_on_seventh_call:
  assumes "no_speech_prob l \<le> no_speech_thresh c" and "rs_text l \<noteq> []"
    and "strip (rs_text l) \<noteq> strip (prev_out c)"
  shows "update_all c (replicate 6 ([l], d)) =
           Inr (c\<lparr>current_out := rs_text l, prev_out := rs_text l, same_output_threshold := 5\<rparr>,
                replicate 6 (Some (format_segment (timestamp_offset c + rs_start l)
                    (timestamp_offset c + min d (rs_end l)) (rs_text l)))) \<and>
         update_all c (replicate 7 ([l], d)) =
           Inr (if text_hist c = [] \<or>
                   lower (strip (last (text_hist c))) \<noteq> lower (strip (rs_text l))
                then c\<lparr>current_out := [], prev_out := rs_text l, same_output_threshold := 0,
                       text_hist := text_hist c @ [rs_text l],
                       transcript := transcript c @
                         [format_segment (timestamp_offset c) (timestamp_offset c + d) (rs_text l)],
                       timestamp_offset := timestamp_offset c + d\<rparr>
                else c\<lparr>current_out := [], prev_out := rs_text l, same_output_threshold := 0,
                       timestamp_offset := timestamp_offset c + d\<rparr>,
                replicate 6 (Some (format_segment (timestamp_offset c + rs_start l)
                    (timestamp_offset c + min d (rs_end l)) (rs_text l))) @ [None])"
proof -
  let ?t = "Some (format_segment (timestamp_offset c + rs_start l)
                    (timestamp_offset c + min d (rs_end l)) (rs_text l))"
  let ?c5 = "c\<lparr>current_out := rs_text l, prev_out := rs_text l, same_output_threshold := 5\<rparr>"
  have r7: "replicate 7 ([l], d) = replicate 6 ([l], d) @ [([l], d)]"
    by (simp add: numeral_eq_Suc replicate_append_same)
  have six: "update_all c (replicate 6 ([l], d)) = Inr (?c5, replicate 6 ?t)"
    by (rule six_repeats [OF assms])
  have last: "update_segments ?c5 [l] d = Inr (stabilized ?c5 [l] d)"
    by (simp add: update_segments_char)
  have seven: "update_all c (replicate 7 ([l], d)) =
      Inr (fst (stabilized ?c5 [l] d), replicate 6 ?t @ [snd (stabilized ?c5 [l] d)])"
    unfolding r7 update_all_append six using last
    by (simp add: split_beta)
  have commit: "stabilized ?c5 [l] d =
     (if text_hist c = [] \<or> lower (strip (last (text_hist c))) \<noteq> lower (strip (rs_text l))
      then (c\<lparr>current_out := [], prev_out := rs_text l, same_output_threshold := 0,
              text_hist := text_hist c @ [rs_text l],
              transcript := transcript c @
                [format_segment (timestamp_offset c) (timestamp_offset c + d) (rs_text l)],
              timestamp_offset := timestamp_offset c + d\<rparr>, None)
      else (c\<lparr>current_out := [], prev_out := rs_text l, same_output_threshold := 0,
              timestamp_offset := timestamp_offset c + d\<rparr>, None))"
    using stabilized_single_commit [of l ?c5 d] assms(1,2) by simp
  show ?thesis
    unfolding seven commit using six by simp
qed

lemma hello_fresh:
  "no_speech_prob hello \<le> no_speech_thresh (new_client 0 ''u1'')"
  "rs_text hello \<noteq> []"
  "strip (rs_text hello) \<noteq> strip (prev_out (new_client 0 ''u1''))"
  by (simp_all add: hello_def new_client_def strip_def is_space_def)

lemma fmt3_values2:
  "fmt3 2 = ''2.000''"
  by (simp add: fmt3_def round_half_even_def pad3_def digit_def show_nat.simps)

text \<open>Seven calls with \<open>hello\<close> on a fresh session.\<close>

theorem repeated_tentative_commits_on_seventh_call_witness:
  "no_speech_prob hello \<le> no_speech_thresh (new_client 0 ''u1'') \<and> rs_text hello \<noteq> [] \<and>
   strip (rs_text hello) \<noteq> strip (prev_out (new_client 0 ''u1'')) \<and>
   update_all (new_client 0 ''u1'') (replicate 7 ([hello], 2)) =
     Inr ((new_client 0 ''u1'')
            \<lparr>prev_out := ''hello'', text_hist := [''hello''],
             transcript := [\<lparr>seg_start = ''0.000'', seg_end = ''2.000'', seg_text = ''hello''\<rparr>],
             timestamp_offset := 2\<rparr>,
          replicate 6 (Some \<lparr>seg_start = ''0.000'', seg_end = ''1.900'', seg_text = ''hello''\<rparr>)
            @ [None])"
proof -
  from repeated_tentative_commits_on_seventh_call [OF hello_fresh, of 2] hello_fresh
  show ?thesis
    by (simp add: new_client_def hello_def format_segment_def fmt3_values fmt3_values2)
qed

text \<open>
  The claim's count fails: after six calls with \<open>hello\<close> on a fresh session the
  transcript is still empty, the counter is 5 and the sixth call has returned the
  tentative segment.
\<close>

theorem six_repeats_commit_nothing_counterexample:
  "update_all (new_client 0 ''u1'') (replicate 6 ([hello], 2)) =
     Inr ((new_client 0 ''u1'')
            \<lparr>current_out := ''hello'', prev_out := ''hello'', same_output_threshold := 5\<rparr>,
          replicate 6 (Some \<lparr>seg_start = ''0.000'', seg_end = ''1.900'', seg_text = ''hello''\<rparr>)) \<and>
   transcript ((new_client 0 ''u1'')
            \<lparr>current_out := ''hello'', prev_out := ''hello'', same_output_threshold := 5\<rparr>) = []"
proof -
  from six_repeats [OF hello_fresh, of 2]
  show ?thesis
    by (simp add: new_client_def hello_def format_segment_def fmt3_values)
qed

subsection \<open>Reading back what \<open>fmt3\<close> writes\<close>

lemma digit_cases:
  "k < 10 \<Longrightarrow> k = 0 \<or> k = 1 \<or> k = 2 \<or> k = 3 \<or> k = 4 \<or> k = 5 \<or> k = 6 \<or> k = 7 \<or> k = 8 \<or> k = (9::nat)"
  by arith

lemma digit_val_digit:
  assumes "k < 10"
  shows "digit_val (digit k) = k"
  using digit_cases [OF assms] by (auto simp: digit_def digit_val_def)

lemma digit_plain:
  assumes "k < 10"
  shows "digit k \<noteq> CHR ''.'' \<and> digit k \<noteq> CHR ''-''"
  using digit_cases [OF assms] by (auto simp: digit_def)

lemma show_nat_plain:
  "show_nat n \<noteq> [] \<and> (\<forall>c \<in> set (show_nat n). c \<noteq> CHR ''.'' \<and> c \<noteq> CHR ''-'')"
proof (induction n rule: show_nat.induct)
  case (1 n)
  show ?case
  proof (cases "n < 10")
    case True
    then show ?thesis
      using digit_plain [of n] by (simp add: show_nat.simps [of n])
  next
    case False
    have "n mod 10 < 10" by simp
    then show ?thesis
      using False 1 digit_plain [of "n mod 10"] by (auto simp: show_nat.simps [of n])
  qed
qed

lemma read_nat_snoc:
  "read_nat (xs @ [c]) = 10 * read_nat xs + digit_val c"
  by (simp add: read_nat_def)

lemma read_nat_show_nat:
  "read_nat (show_nat n) = n"
proof (induction n rule: show_nat.induct)
  case (1 n)
  show ?case
  proof (cases "n < 10")
    case True
    then show ?thesis
      by (simp add: show_nat.simps [of n] read_nat_def digit_val_digit)
  next
    case False
    have "n mod 10 < 10" by simp
    then have "digit_val (digit (n mod 10)) = n mod 10" by (rule digit_val_digit)
    then show ?thesis
      using False 1 by (simp add: show_nat.simps [of n] read_nat_snoc)
  qed
qed

lemma read_nat_pad3:
  assumes "b < 1000"
  shows "read_nat (xs @ pad3 b) = 1000 * read_nat xs + b"
proof -
  have d1: "b div 100 < 10" using assms by simp
  have d2: "b div 10 mod 10 < 10" and d3: "b mod 10 < 10" by simp_all
  have "xs @ pad3 b = ((xs @ [digit (b div 100)]) @ [digit (b div 10 mod 10)]) @ [digit (b mod 10)]"
    by (simp add: pad3_def)
  then have "read_nat (xs @ pad3 b) =
     10 * (10 * (10 * read_nat xs + b div 100) + b div 10 mod 10) + b mod 10"
    by (simp only: read_nat_snoc digit_val_digit [OF d1] digit_val_digit [OF d2]
        digit_val_digit [OF d3])
  also have "\<dots> = 1000 * read_nat xs + (100 * (b div 100) + 10 * (b div 10 mod 10) + b mod 10)"
    by simp
  also have "100 * (b div 100) + 10 * (b div 10 mod 10) + b mod 10 = b"
  proof -
    have "b mod (10 * 10) = 10 * (b div 10 mod 10) + b mod 10"
      by (rule mod_mult2_eq)
    then have A: "10 * (b div 10 mod 10) + b mod 10 = b mod 100" by simp
    have B: "100 * (b div 100) + b mod 100 = b" by simp
    from A B show ?thesis by linarith
  qed
  finally show ?thesis .
qed

lemma pad3_plain:
  assumes "b < 1000"
  shows "\<forall>c \<in> set (pad3 b). c \<noteq> CHR ''.'' \<and> c \<noteq> CHR ''-''"
proof -
  have d1: "b div 100 < 10" using assms by simp
  have d2: "b div 10 mod 10 < 10" and d3: "b mod 10 < 10" by simp_all
  show ?thesis
    using digit_plain [OF d1] digit_plain [OF d2] digit_plain [OF d3] by (simp add: pad3_def)
qed

lemma millis_digits:
  assumes "b < 1000"
  shows "millis (show_nat a @ ''.'' @ pad3 b) = int (1000 * a + b)"
    and "millis (''-'' @ show_nat a @ ''.'' @ pad3 b) = - int (1000 * a + b)"
proof -
  have f1: "filter (\<lambda>d. d \<noteq> CHR ''.'') (show_nat a) = show_nat a"
    using show_nat_plain [of a] by (simp add: filter_id_conv)
  have f2: "filter (\<lambda>d. d \<noteq> CHR ''.'') (pad3 b) = pad3 b"
    using pad3_plain [OF assms] by (simp add: filter_id_conv)
  have body: "read_nat (filter (\<lambda>d. d \<noteq> CHR ''.'') (show_nat a @ ''.'' @ pad3 b)) = 1000 * a + b"
    by (simp add: f1 f2 read_nat_pad3 [OF assms] read_nat_show_nat)
  obtain c r where cr: "show_nat a = c # r"
    using show_nat_plain [of a] by (cases "show_nat a") auto
  then have "c \<noteq> CHR ''-''"
    using show_nat_plain [of a] by auto
  then show "millis (show_nat a @ ''.'' @ pad3 b) = int (1000 * a + b)"
    using body cr by (simp add: millis_def)
  show "millis (''-'' @ show_nat a @ ''.'' @ pad3 b) = - int (1000 * a + b)"
    using body by (simp add: millis_def)
qed

lemma round_half_even_bounds:
  "\<lfloor>x\<rfloor> \<le> round_half_even x \<and> round_half_even x \<le> \<lfloor>x\<rfloor> + 1"
  by (simp add: round_half_even_def Let_def)

lemma round_half_even_nonneg:
  assumes "0 \<le> x"
  shows "0 \<le> round_half_even x"
proof -
  have "0 \<le> \<lfloor>x\<rfloor>" using assms by simp
  then show ?thesis using round_half_even_bounds [of x] by linarith
qed

lemma round_half_even_mono:
  assumes "x \<le> y"
  shows "round_half_even x \<le> round_half_even y"
proof (cases "\<lfloor>x\<rfloor> < \<lfloor>y\<rfloor>")
  case True
  then show ?thesis
    using round_half_even_bounds [of x] round_half_even_bounds [of y] by linarith
next
  case False
  then have eq: "\<lfloor>y\<rfloor> = \<lfloor>x\<rfloor>"
    using assms floor_mono [of x y] by linarith
  define f where "f = \<lfloor>x\<rfloor>"
  define rx where "rx = x - of_int f"
  define ry where "ry = y - of_int f"
  have le: "rx \<le> ry" using assms by (simp add: rx_def ry_def)
  have X: "round_half_even x =
      (if rx < 1 / 2 then f else if 1 / 2 < rx then f + 1 else if even f then f else f + 1)"
    by (simp add: round_half_even_def Let_def f_def rx_def)
  have Y: "round_half_even y =
      (if ry < 1 / 2 then f else if 1 / 2 < ry then f + 1 else if even f then f else f + 1)"
    by (simp add: round_half_even_def Let_def f_def ry_def eq)
  consider "rx < 1 / 2" | "1 / 2 < rx" | "rx = 1 / 2" by linarith
  then show ?thesis
  proof cases
    case 1
    then have "round_half_even x = f" by (simp add: X)
    moreover have "f \<le> round_half_even y" by (simp add: Y)
    ultimately show ?thesis by simp
  next
    case 2
    then have "1 / 2 < ry" using le by linarith
    then have "round_half_even y = f + 1" by (simp add: Y)
    moreover have "round_half_even x \<le> f + 1" by (simp add: X)
    ultimately show ?thesis by simp
  next
    case 3
    show ?thesis
    proof (cases "even f")
      case True
      then have "round_half_even x = f" using 3 by (simp add: X)
      moreover have "f \<le> round_half_even y" by (simp add: Y)
      ultimately show ?thesis by simp
    next
      case False
      have "\<not> ry < 1 / 2" using le 3 by linarith
      then have "round_half_even y = f + 1" using False by (simp add: Y)
      moreover have "round_half_even x \<le> f + 1" by (simp add: X)
      ultimately show ?thesis by simp
    qed
  qed
qed

lemma millis_fmt3:
  "millis (fmt3 x) = round3 x"
proof -
  define q where "q = nat (round_half_even (\<bar>x\<bar> * 1000))"
  have "0 \<le> round_half_even (\<bar>x\<bar> * 1000)"
    by (rule round_half_even_nonneg) simp
  then have q: "int q = round_half_even (\<bar>x\<bar> * 1000)"
    by (simp add: q_def)
  have b: "q mod 1000 < 1000" by simp
  have sum: "1000 * (q div 1000) + q mod 1000 = q" by simp
  have pos: "millis (show_nat (q div 1000) @ ''.'' @ pad3 (q mod 1000)) = int q"
    and neg: "millis (''-'' @ show_nat (q div 1000) @ ''.'' @ pad3 (q mod 1000)) = - int q"
    using millis_digits [OF b, of "q div 1000"] unfolding sum by simp_all
  have fmt: "fmt3 x = (if x < 0 then ''-'' else []) @ show_nat (q div 1000) @ ''.'' @ pad3 (q mod 1000)"
    unfolding fmt3_def Let_def q_def ..
  show ?thesis
  proof (cases "x < 0")
    case True
    then have "fmt3 x = ''-'' @ show_nat (q div 1000) @ ''.'' @ pad3 (q mod 1000)"
      unfolding fmt by simp
    then have "millis (fmt3 x) = - int q" using neg by simp
    also have "\<dots> = round3 x" unfolding q round3_def using True by simp
    finally show ?thesis .
  next
    case False
    then have "fmt3 x = show_nat (q div 1000) @ ''.'' @ pad3 (q mod 1000)"
      unfolding fmt by simp
    then have "millis (fmt3 x) = int q" using pos by simp
    also have "\<dots> = round3 x" unfolding q round3_def using False by simp
    finally show ?thesis .
  qed
qed

lemma round3_mono:
  assumes "x \<le> y"
  shows "round3 x \<le> round3 y"
proof -
  have nn: "0 \<le> round_half_even (\<bar>z\<bar> * 1000)" for z :: real
    by (rule round_half_even_nonneg) simp
  show ?thesis
  proof (cases "x < 0")
    case True
    show ?thesis
    proof (cases "y < 0")
      case y: True
      then have "\<bar>y\<bar> * 1000 \<le> \<bar>x\<bar> * 1000" using assms True by simp
      from round_half_even_mono [OF this] have
        "round_half_even (\<bar>y\<bar> * 1000) \<le> round_half_even (\<bar>x\<bar> * 1000)" .
      then show ?thesis
        unfolding round3_def using True y by simp
    next
      case y: False
      have "round3 x \<le> 0" unfolding round3_def using True nn [of x] by simp
      moreover have "0 \<le> round3 y" unfolding round3_def using y nn [of y] by simp
      ultimately show ?thesis by simp
    qed
  next
    case False
    then have y: "\<not> y < 0" and "\<bar>x\<bar> * 1000 \<le> \<bar>y\<bar> * 1000" using assms by simp_all
    from round_half_even_mono [OF this(2)] show ?thesis
      unfolding round3_def using False y by simp
  qed
qed

subsection \<open>The order of the transcript\<close>

lemma stabilized_transcript:
  "transcript (fst (stabilized c segments d)) =
     transcript c @ map (complete_entry c d) (filter (committable c d) (butlast segments)) @
     repeated_entry c segments d"
  by (simp add: stabilized_def repeated_entry_def Let_def)

lemma stabilized_offset:
  "timestamp_offset (fst (stabilized c segments d)) =
     (if 5 < repeat_count c segments then timestamp_offset c + d
      else case complete_offset c d (butlast segments) of
             None \<Rightarrow> timestamp_offset c
           | Some off \<Rightarrow> timestamp_offset c + off)"
  by (simp add: stabilized_def Let_def)

lemma sorted_wrt_le_last:
  assumes "sorted_wrt P xs" and "x \<in> set xs" and "\<And>y. P y y"
  shows "P x (last xs)"
proof -
  have ne: "xs \<noteq> []" using assms(2) by auto
  then have xs: "xs = butlast xs @ [last xs]" by simp
  then have "sorted_wrt P (butlast xs @ [last xs])" using assms(1) by simp
  then have "\<forall>y \<in> set (butlast xs). P y (last xs)"
    by (simp add: sorted_wrt_append)
  moreover have "x \<in> set (butlast xs) \<or> x = last xs"
    using assms(2) xs by (metis Un_iff empty_iff empty_set set_ConsD set_append)
  ultimately show ?thesis using assms(3) by auto
qed

lemma complete_entry_millis:
  "millis (seg_start (complete_entry c d s)) = round3 (timestamp_offset c + rs_start s)"
  "millis (seg_end (complete_entry c d s)) = round3 (timestamp_offset c + min d (rs_end s))"
  by (simp_all add: complete_entry_def format_segment_def millis_fmt3)

lemma committable_start:
  "committable c d s \<Longrightarrow> rs_start s < min d (rs_end s)"
  by (simp add: committable_def)

lemma single_call_order:
  assumes wf: "wf_call (segments, d)"
  shows "timestamp_offset c \<le> timestamp_offset (fst (stabilized c segments d))"
    and "sorted (map (millis \<circ> seg_start)
           (map (complete_entry c d) (filter (committable c d) (butlast segments))))"
    and "\<forall>e \<in> set (map (complete_entry c d) (filter (committable c d) (butlast segments)) @
                     repeated_entry c segments d).
           round3 (timestamp_offset c) \<le> millis (seg_start e) \<and>
           millis (seg_start e) \<le> round3 (timestamp_offset (fst (stabilized c segments d))) \<and>
           millis (seg_start e) \<le> millis (seg_end e)"
proof -
  define F where "F = filter (committable c d) (butlast segments)"
  define c' where "c' = fst (stabilized c segments d)"
  let ?ts = "timestamp_offset c"
  let ?le = "\<lambda>a b. rs_start a \<le> rs_start b"
  have d0: "0 \<le> d" and srt: "sorted_wrt ?le segments"
    and nonneg: "\<forall>s \<in> set segments. 0 \<le> rs_start s"
    using wf by (simp_all add: wf_call_def list_all_iff)
  have "sorted_wrt ?le (butlast segments)"
    using srt by (simp add: butlast_conv_take sorted_wrt_take)
  then have srtF: "sorted_wrt ?le F"
    unfolding F_def by (rule sorted_wrt_filter)
  have inF: "0 \<le> rs_start s \<and> rs_start s < min d (rs_end s)" if "s \<in> set F" for s
  proof -
    from that have "s \<in> set segments" and "committable c d s"
      unfolding F_def by (auto dest: in_set_butlastD)
    then show ?thesis using nonneg committable_start by blast
  qed
  have off: "timestamp_offset c' =
     (if 5 < repeat_count c segments then ?ts + d
      else if F = [] then ?ts else ?ts + min d (rs_end (last F)))"
    unfolding c'_def stabilized_offset complete_offset_def F_def by simp
  have lastF: "0 \<le> rs_start (last F) \<and> rs_start (last F) < min d (rs_end (last F))"
    if "F \<noteq> []"
    using inF [of "last F"] that by simp
  have up: "?ts \<le> timestamp_offset c'"
    unfolding off using d0 lastF by auto
  then show "timestamp_offset c \<le> timestamp_offset (fst (stabilized c segments d))"
    unfolding c'_def .
  have below: "?ts + rs_start s \<le> timestamp_offset c'" if "s \<in> set F" for s
  proof (cases "5 < repeat_count c segments")
    case True
    have "rs_start s < d" using inF [OF that] by simp
    then show ?thesis unfolding off using True by simp
  next
    case False
    have ne: "F \<noteq> []" using that by auto
    have "rs_start s \<le> rs_start (last F)"
      using sorted_wrt_le_last [of ?le F s] srtF that by simp
    also have "\<dots> < min d (rs_end (last F))" using lastF [OF ne] by simp
    finally show ?thesis unfolding off using False ne by simp
  qed
  have "sorted_wrt (\<lambda>a b. round3 (?ts + rs_start a) \<le> round3 (?ts + rs_start b)) F"
    using srtF by (rule sorted_wrt_mono_rel [rotated]) (simp add: round3_mono)
  then show "sorted (map (millis \<circ> seg_start)
           (map (complete_entry c d) (filter (committable c d) (butlast segments))))"
    unfolding F_def [symmetric] by (simp add: sorted_map complete_entry_millis o_def)
  have comp: "round3 ?ts \<le> millis (seg_start e) \<and>
           millis (seg_start e) \<le> round3 (timestamp_offset c') \<and>
           millis (seg_start e) \<le> millis (seg_end e)"
    if "e \<in> set (map (complete_entry c d) F)" for e
  proof -
    from that obtain s where s: "s \<in> set F" and e: "e = complete_entry c d s" by auto
    have "?ts \<le> ?ts + rs_start s" and "?ts + rs_start s \<le> ?ts + min d (rs_end s)"
      using inF [OF s] by simp_all
    then show ?thesis
      unfolding e complete_entry_millis using below [OF s] by (simp add: round3_mono)
  qed
  have rep: "round3 ?ts \<le> millis (seg_start e) \<and>
           millis (seg_start e) \<le> round3 (timestamp_offset c') \<and>
           millis (seg_start e) \<le> millis (seg_end e)"
    if "e \<in> set (repeated_entry c segments d)" for e
  proof -
    from that have k: "5 < repeat_count c segments"
      and e: "e = format_segment ?ts (?ts + d) (pending_text c segments)"
      by (auto simp: repeated_entry_def split: if_splits)
    have "timestamp_offset c' = ?ts + d" unfolding off using k by simp
    then show ?thesis
      unfolding e using d0 by (simp add: format_segment_def millis_fmt3 round3_mono)
  qed
  show "\<forall>e \<in> set (map (complete_entry c d) (filter (committable c d) (butlast segments)) @
                     repeated_entry c segments d).
           round3 (timestamp_offset c) \<le> millis (seg_start e) \<and>
           millis (seg_start e) \<le> round3 (timestamp_offset (fst (stabilized c segments d))) \<and>
           millis (seg_start e) \<le> millis (seg_end e)"
    unfolding F_def [symmetric] c'_def [symmetric] using comp rep by auto
qed

lemma single_call_inv:
  assumes "wf_call (segments, d)" and "transcript_inv c"
  shows "transcript_inv (fst (stabilized c segments d))"
proof -
  let ?c' = "fst (stabilized c segments d)"
  let ?new = "map (complete_entry c d) (filter (committable c d) (butlast segments)) @
     repeated_entry c segments d"
  have up: "round3 (timestamp_offset c) \<le> round3 (timestamp_offset ?c')"
    using single_call_order(1) [OF assms(1)] by (rule round3_mono)
  have old: "millis (seg_start e) \<le> round3 (timestamp_offset ?c') \<and>
      millis (seg_start e) \<le> millis (seg_end e)" if "e \<in> set (transcript c)" for e
    using assms(2) that up unfolding transcript_inv_def list_all_iff by fastforce
  have new: "millis (seg_start e) \<le> round3 (timestamp_offset ?c') \<and>
      millis (seg_start e) \<le> millis (seg_end e)" if "e \<in> set ?new" for e
    using single_call_order(3) [OF assms(1), of c] that by blast
  have "transcript ?c' = transcript c @ ?new"
    by (simp add: stabilized_transcript)
  then show ?thesis
    unfolding transcript_inv_def list_all_iff using old new by auto
qed

lemma update_all_inv:
  assumes "list_all wf_call calls" and "transcript_inv c"
  shows "\<exists>c1 rs. update_all c calls = Inr (c1, rs) \<and> transcript_inv c1"
  using assms
proof (induction calls arbitrary: c)
  case Nil
  then show ?case by simp
next
  case (Cons call calls)
  obtain segments d where call: "call = (segments, d)" by (cases call)
  have wf: "wf_call (segments, d)" and rest: "list_all wf_call calls"
    using Cons.prems(1) call by simp_all
  have ne: "segments \<noteq> []" using wf by (simp add: wf_call_def)
  obtain c1 r where st: "stabilized c segments d = (c1, r)"
    by (cases "stabilized c segments d")
  have step: "update_segments c segments d = Inr (c1, r)"
    using update_segments_char [OF ne, of c d] st by simp
  have "transcript_inv c1"
    using single_call_inv [OF wf Cons.prems(2)] st by simp
  from Cons.IH [OF rest this] obtain c2 rs where
    "update_all c1 calls = Inr (c2, rs)" and "transcript_inv c2" by blast
  then show ?case
    using step call by simp
qed

lemma strip_b:
  "strip ''b'' = ''b''" "strip [] = []" "lower (strip ''a'') \<noteq> lower ''b''"
  by (simp_all add: strip_def is_space_def lower_def lower_char_def)

lemma seg_a_text:
  "rs_text seg_a = ''a''"
  by (simp add: seg_a_def)

lemma ab_parts:
  assumes "no_speech_thresh c = 45 / 100"
  shows "pending_text c [seg_a, seg_b] = ''b''"
    and "filter (committable c 2) (butlast [seg_a, seg_b]) = [seg_a]"
    and "complete_entry c 2 seg_a =
           format_segment (timestamp_offset c + 1 / 2) (timestamp_offset c + 1) ''a''"
    and "complete_offset c 2 (butlast [seg_a, seg_b]) = Some 1"
    and "tentative_entry c 2 [seg_a, seg_b] =
           Some (format_segment (timestamp_offset c + 1) (timestamp_offset c + 19 / 10) ''b'')"
  using assms
  by (simp_all add: pending_text_def committable_def complete_entry_def complete_offset_def
      tentative_entry_def seg_a_def seg_b_def)

lemma ab_step:
  assumes "no_speech_thresh c = 45 / 100"
    and "k = (if ''b'' = strip (prev_out c) then same_output_threshold c + 1 else 0)"
    and "k \<le> 5"
  shows "update_segments c [seg_a, seg_b] 2 =
     Inr (c\<lparr>current_out := ''b'', prev_out := ''b'', same_output_threshold := k,
            text_hist := text_hist c @ [''a''],
            transcript := transcript c @
              [format_segment (timestamp_offset c + 1 / 2) (timestamp_offset c + 1) ''a''],
            timestamp_offset := timestamp_offset c + 1\<rparr>,
          Some (format_segment (timestamp_offset c + 1) (timestamp_offset c + 19 / 10) ''b''))"
proof -
  have rc: "repeat_count c [seg_a, seg_b] = k"
    using assms(2) by (simp add: repeat_count_def ab_parts(1) [OF assms(1)] strip_b)
  have "\<not> 5 < k" using assms(3) by simp
  then have "stabilized c [seg_a, seg_b] 2 =
     (c\<lparr>current_out := ''b'', prev_out := ''b'', same_output_threshold := k,
            text_hist := text_hist c @ [''a''],
            transcript := transcript c @
              [format_segment (timestamp_offset c + 1 / 2) (timestamp_offset c + 1) ''a''],
            timestamp_offset := timestamp_offset c + 1\<rparr>,
          Some (format_segment (timestamp_offset c + 1) (timestamp_offset c + 19 / 10) ''b''))"
    unfolding stabilized_def Let_def rc ab_parts [OF assms(1)]
    by (simp add: seg_a_text ab_parts [OF assms(1)])
  then show ?thesis by (simp add: update_segments_char)
qed

lemma ab_commit:
  assumes "no_speech_thresh c = 45 / 100" and "prev_out c = ''b''"
    and "same_output_threshold c = 5"
  shows "update_segments c [seg_a, seg_b] 2 =
     Inr (c\<lparr>current_out := [], same_output_threshold := 0,
            text_hist := text_hist c @ [''a'', ''b''],
            transcript := transcript c @
              [format_segment (timestamp_offset c + 1 / 2) (timestamp_offset c + 1) ''a'',
               format_segment (timestamp_offset c) (timestamp_offset c + 2) ''b''],
            timestamp_offset := timestamp_offset c + 2\<rparr>, None)"
proof -
  have rc: "repeat_count c [seg_a, seg_b] = 6"
    using assms(2,3) by (simp add: repeat_count_def ab_parts(1) [OF assms(1)] strip_b)
  have "stabilized c [seg_a, seg_b] 2 =
     (c\<lparr>current_out := [], same_output_threshold := 0,
            text_hist := text_hist c @ [''a'', ''b''],
            transcript := transcript c @
              [format_segment (timestamp_offset c + 1 / 2) (timestamp_offset c + 1) ''a'',
               format_segment (timestamp_offset c) (timestamp_offset c + 2) ''b''],
            timestamp_offset := timestamp_offset c + 2\<rparr>, None)"
    unfolding stabilized_def Let_def rc ab_parts [OF assms(1)]
    by (simp add: seg_a_text strip_b ab_parts [OF assms(1)])
  then show ?thesis by (simp add: update_segments_char)
qed

lemma ab_run:
  assumes "m \<le> 5"
  shows "\<exists>rs. update_all (new_client 0 ''u1'') (replicate (Suc m) ([seg_a, seg_b], 2)) =
           Inr (ab_state m, rs)"
  using assms
proof (induction m)
  case 0
  have "update_segments (new_client 0 ''u1'') [seg_a, seg_b] 2 =
      Inr (ab_state 0,
        Some (format_segment (timestamp_offset (new_client 0 ''u1'') + 1)
                (timestamp_offset (new_client 0 ''u1'') + 19 / 10) ''b''))"
    by (subst ab_step [where k = 0])
      (simp_all add: new_client_def strip_b ab_state_def ab_entry_def)
  then show ?case by simp
next
  case (Suc m)
  then have m: "m \<le> 5" and k: "Suc m \<le> 5" by simp_all
  from Suc.IH [OF m] obtain rs where
    run: "update_all (new_client 0 ''u1'') (replicate (Suc m) ([seg_a, seg_b], 2)) =
           Inr (ab_state m, rs)" ..
  have step: "update_segments (ab_state m) [seg_a, seg_b] 2 =
      Inr (ab_state (Suc m),
        Some (format_segment (timestamp_offset (ab_state m) + 1)
                (timestamp_offset (ab_state m) + 19 / 10) ''b''))"
    using k
    by (subst ab_step [where k = "Suc m"])
      (simp_all add: ab_state_def new_client_def strip_b ab_entry_def replicate_append_same
        add.commute)
  have "replicate (Suc (Suc m)) ([seg_a, seg_b], 2::real) =
      replicate (Suc m) ([seg_a, seg_b], 2) @ [([seg_a, seg_b], 2)]"
    by (simp add: replicate_append_same)
  then show ?case
    using run step by (simp only: update_all_append) simp
qed

lemma seven_calls:
  "\<exists>rs. update_all (new_client 0 ''u1'') (replicate 7 ([seg_a, seg_b], 2)) =
     Inr ((ab_state 5)
            \<lparr>current_out := [], same_output_threshold := 0,
             text_hist := text_hist (ab_state 5) @ [''a'', ''b''],
             transcript := map ab_entry [0..<7] @ [format_segment 6 8 ''b''],
             timestamp_offset := 8\<rparr>, rs)"
proof -
  from ab_run [of 5] obtain rs where
    run: "update_all (new_client 0 ''u1'') (replicate (Suc 5) ([seg_a, seg_b], 2)) =
           Inr (ab_state 5, rs)" by auto
  have r7: "replicate 7 ([seg_a, seg_b], 2::real) =
      replicate (Suc 5) ([seg_a, seg_b], 2) @ [([seg_a, seg_b], 2)]"
    by (simp add: numeral_eq_Suc replicate_append_same)
  have u7: "[0..<7] = [0..<Suc 5] @ [6]"
    by (simp add: numeral_eq_Suc)
  have commit: "update_segments (ab_state 5) [seg_a, seg_b] 2 =
     Inr ((ab_state 5)
            \<lparr>current_out := [], same_output_threshold := 0,
             text_hist := text_hist (ab_state 5) @ [''a'', ''b''],
             transcript := map ab_entry [0..<7] @ [format_segment 6 8 ''b''],
             timestamp_offset := 8\<rparr>, None)"
    unfolding u7
    by (subst ab_commit) (simp_all add: ab_state_def new_client_def ab_entry_def)
  show ?thesis
    unfolding r7 update_all_append run using commit by simp
qed

lemma new_client_inv:
  "transcript_inv (new_client ws uid)"
  by (simp add: transcript_inv_def new_client_def)

text \<open>
  \<^bold>\<open>C3\<close>, as the code has it. Take any run of calls from a fresh session in which
  every batch is non-empty and sorted by start, no start is negative and no duration is
  negative, and look at its last call, made in session \<open>c1\<close>. The call appends exactly
  the entries of its committable complete segments, in the order of the batch, and their
  starts do not decrease; then it appends at most one entry for the repeated tentative
  text, and that entry runs from \<^verbatim>\<open>timestamp_offset\<close> of \<open>c1\<close> for the whole duration.
  No earlier entry starts after that \<^verbatim>\<open>timestamp_offset\<close> and no new entry starts before
  it, so an entry of an earlier call never starts after an entry of a later call; and
  every entry of the transcript ends no earlier than it starts. Times are compared as
  stored, in thousandths.
\<close>

theorem transcript_order_across_calls:
  assumes "list_all wf_call (calls @ [(segments, d)])"
  shows "\<exists>c1 rs c2 r.
     update_all (new_client ws uid) calls = Inr (c1, rs) \<and>
     update_segments c1 segments d = Inr (c2, r) \<and>
     update_all (new_client ws uid) (calls @ [(segments, d)]) = Inr (c2, rs @ [r]) \<and>
     transcript c2 =
       transcript c1 @
       map (complete_entry c1 d) (filter (committable c1 d) (butlast segments)) @
       repeated_entry c1 segments d \<and>
     sorted (map (millis \<circ> seg_start)
       (map (complete_entry c1 d) (filter (committable c1 d) (butlast segments)))) \<and>
     (repeated_entry c1 segments d = [] \<or>
      repeated_entry c1 segments d =
        [format_segment (timestamp_offset c1) (timestamp_offset c1 + d)
           (rs_text (last segments))]) \<and>
     (\<forall>e \<in> set (repeated_entry c1 segments d).
        seg_start e = fmt3 (timestamp_offset c1) \<and>
        millis (seg_start e) = round3 (timestamp_offset c1)) \<and>
     (\<forall>a \<in> set (transcript c1). millis (seg_start a) \<le> round3 (timestamp_offset c1)) \<and>
     (\<forall>b \<in> set (map (complete_entry c1 d) (filter (committable c1 d) (butlast segments)) @
                  repeated_entry c1 segments d).
        round3 (timestamp_offset c1) \<le> millis (seg_start b)) \<and>
     (\<forall>a \<in> set (transcript c1).
        \<forall>b \<in> set (map (complete_entry c1 d) (filter (committable c1 d) (butlast segments)) @
                    repeated_entry c1 segments d).
          millis (seg_start a) \<le> millis (seg_start b)) \<and>
     (\<forall>e \<in> set (transcript c2). millis (seg_start e) \<le> millis (seg_end e))"
proof -
  have wfs: "list_all wf_call calls" and wf: "wf_call (segments, d)"
    using assms by simp_all
  have ne: "segments \<noteq> []" using wf by (simp add: wf_call_def)
  from update_all_inv [OF wfs new_client_inv] obtain c1 rs where
    run: "update_all (new_client ws uid) calls = Inr (c1, rs)" and inv1: "transcript_inv c1"
    by blast
  obtain c2 r where st: "stabilized c1 segments d = (c2, r)"
    by (cases "stabilized c1 segments d")
  have c2: "c2 = fst (stabilized c1 segments d)" using st by simp
  define comp where
    "comp = map (complete_entry c1 d) (filter (committable c1 d) (butlast segments))"
  define stab where "stab = repeated_entry c1 segments d"
  have step: "update_segments c1 segments d = Inr (c2, r)"
    using update_segments_char [OF ne, of c1 d] st by simp
  have all: "update_all (new_client ws uid) (calls @ [(segments, d)]) = Inr (c2, rs @ [r])"
    unfolding update_all_append run using step by simp
  have tr: "transcript c2 = transcript c1 @ comp @ stab"
    unfolding c2 comp_def stab_def by (rule stabilized_transcript)
  have srt: "sorted (map (millis \<circ> seg_start) comp)"
    unfolding comp_def by (rule single_call_order(2) [OF wf])
  have pin: "stab = [] \<or>
      stab = [format_segment (timestamp_offset c1) (timestamp_offset c1 + d)
                (rs_text (last segments))]"
  proof (cases "5 < repeat_count c1 segments")
    case True
    then have "pending_text c1 segments \<noteq> []"
      by (auto simp: repeat_count_def split: if_splits)
    then have "pending_text c1 segments = rs_text (last segments)"
      by (auto simp: pending_text_def split: if_splits)
    then show ?thesis
      unfolding stab_def repeated_entry_def by simp
  next
    case False
    then show ?thesis
      unfolding stab_def repeated_entry_def by simp
  qed
  have at_cursor: "\<forall>e \<in> set stab.
        seg_start e = fmt3 (timestamp_offset c1) \<and>
        millis (seg_start e) = round3 (timestamp_offset c1)"
    using pin by (auto simp: format_segment_def millis_fmt3)
  have new: "\<forall>b \<in> set (comp @ stab). round3 (timestamp_offset c1) \<le> millis (seg_start b)"
    using single_call_order(3) [OF wf, of c1] unfolding comp_def stab_def by blast
  have old: "\<forall>a \<in> set (transcript c1). millis (seg_start a) \<le> round3 (timestamp_offset c1)"
    using inv1 unfolding transcript_inv_def list_all_iff by blast
  have cross: "\<forall>a \<in> set (transcript c1). \<forall>b \<in> set (comp @ stab).
        millis (seg_start a) \<le> millis (seg_start b)"
    using old new by fastforce
  have "transcript_inv c2"
    unfolding c2 by (rule single_call_inv [OF wf inv1])
  then have ends: "\<forall>e \<in> set (transcript c2). millis (seg_start e) \<le> millis (seg_end e)"
    unfolding transcript_inv_def list_all_iff by blast
  have "update_all (new_client ws uid) calls = Inr (c1, rs) \<and>
     update_segments c1 segments d = Inr (c2, r) \<and>
     update_all (new_client ws uid) (calls @ [(segments, d)]) = Inr (c2, rs @ [r]) \<and>
     transcript c2 = transcript c1 @ comp @ stab \<and>
     sorted (map (millis \<circ> seg_start) comp) \<and>
     (stab = [] \<or>
      stab = [format_segment (timestamp_offset c1) (timestamp_offset c1 + d)
                (rs_text (last segments))]) \<and>
     (\<forall>e \<in> set stab.
        seg_start e = fmt3 (timestamp_offset c1) \<and>
        millis (seg_start e) = round3 (timestamp_offset c1)) \<and>
     (\<forall>a \<in> set (transcript c1). millis (seg_start a) \<le> round3 (timestamp_offset c1)) \<and>
     (\<forall>b \<in> set (comp @ stab). round3 (timestamp_offset c1) \<le> millis (seg_start b)) \<and>
     (\<forall>a \<in> set (transcript c1). \<forall>b \<in> set (comp @ stab).
          millis (seg_start a) \<le> millis (seg_start b)) \<and>
     (\<forall>e \<in> set (transcript c2). millis (seg_start e) \<le> millis (seg_end e))"
    using run step all tr srt pin at_cursor old new cross ends by (intro conjI)
  then show ?thesis
    unfolding comp_def stab_def by (intro exI)
qed

text \<open>
  The end-to-end batch followed by the batch \<open>a, b\<close>: the second call commits \<open>a\<close> from
  1.500 and nothing else.
\<close>

theorem transcript_order_across_calls_witness:
  "list_all wf_call ([([hi, there], 2)] @ [([seg_a, seg_b], 2)]) \<and>
   (\<exists>c1 rs c2 r.
     update_all (new_client 0 ''u1'') [([hi, there], 2)] = Inr (c1, rs) \<and>
     update_segments c1 [seg_a, seg_b] 2 = Inr (c2, r) \<and>
     update_all (new_client 0 ''u1'') ([([hi, there], 2)] @ [([seg_a, seg_b], 2)]) =
       Inr (c2, rs @ [r]) \<and>
     transcript c2 =
       transcript c1 @
       map (complete_entry c1 2) (filter (committable c1 2) (butlast [seg_a, seg_b])) @
       repeated_entry c1 [seg_a, seg_b] 2 \<and>
     sorted (map (millis \<circ> seg_start)
       (map (complete_entry c1 2) (filter (committable c1 2) (butlast [seg_a, seg_b])))) \<and>
     (repeated_entry c1 [seg_a, seg_b] 2 = [] \<or>
      repeated_entry c1 [seg_a, seg_b] 2 =
        [format_segment (timestamp_offset c1) (timestamp_offset c1 + 2)
           (rs_text (last [seg_a, seg_b]))])) \<and>
   update_all (new_client 0 ''u1'') ([([hi, there], 2)] @ [([seg_a, seg_b], 2)]) =
     Inr ((new_client 0 ''u1'')
            \<lparr>current_out := ''b'', prev_out := ''b'', text_hist := [''hi'', ''a''],
             transcript :=
               [\<lparr>seg_start = ''0.000'', seg_end = ''1.000'', seg_text = ''hi''\<rparr>,
                \<lparr>seg_start = ''1.500'', seg_end = ''2.000'', seg_text = ''a''\<rparr>],
             timestamp_offset := 2\<rparr>,
          [Some \<lparr>seg_start = ''1.000'', seg_end = ''1.900'', seg_text = ''there''\<rparr>,
           Some \<lparr>seg_start = ''2.000'', seg_end = ''2.900'', seg_text = ''b''\<rparr>])"
proof -
  have wf: "list_all wf_call ([([hi, there], 2)] @ [([seg_a, seg_b], 2)])"
    by (simp add: wf_call_def hi_def there_def seg_a_def seg_b_def)
  have first: "update_segments (new_client 0 ''u1'') [hi, there] 2 =
      Inr ((new_client 0 ''u1'')
             \<lparr>text_hist := [''hi''], current_out := ''there'', prev_out := ''there'',
              timestamp_offset := 1,
              transcript := [\<lparr>seg_start = ''0.000'', seg_end = ''1.000'', seg_text = ''hi''\<rparr>]\<rparr>,
           Some \<lparr>seg_start = ''1.000'', seg_end = ''1.900'', seg_text = ''there''\<rparr>)"
    by (simp add: update_segments_def tentative_segment_def count_same_output_def
        commit_repeated_def format_segment_def fmt3_values hi_def there_def new_client_def
        strip_def is_space_def Let_def)
  have vals: "fmt3 (3 / 2) = ''1.500''" "fmt3 2 = ''2.000''" "fmt3 (29 / 10) = ''2.900''"
    by (simp_all add: fmt3_def round_half_even_def pad3_def digit_def show_nat.simps)
  have second: "update_segments
      ((new_client 0 ''u1'')
             \<lparr>text_hist := [''hi''], current_out := ''there'', prev_out := ''there'',
              timestamp_offset := 1,
              transcript := [\<lparr>seg_start = ''0.000'', seg_end = ''1.000'', seg_text = ''hi''\<rparr>]\<rparr>)
      [seg_a, seg_b] 2 =
      Inr ((new_client 0 ''u1'')
            \<lparr>current_out := ''b'', prev_out := ''b'', text_hist := [''hi'', ''a''],
             transcript :=
               [\<lparr>seg_start = ''0.000'', seg_end = ''1.000'', seg_text = ''hi''\<rparr>,
                \<lparr>seg_start = ''1.500'', seg_end = ''2.000'', seg_text = ''a''\<rparr>],
             timestamp_offset := 2\<rparr>,
           Some \<lparr>seg_start = ''2.000'', seg_end = ''2.900'', seg_text = ''b''\<rparr>)"
    by (subst ab_step [where k = 0])
      (simp_all add: new_client_def strip_def is_space_def format_segment_def vals)
  have run: "update_all (new_client 0 ''u1'') ([([hi, there], 2)] @ [([seg_a, seg_b], 2)]) =
     Inr ((new_client 0 ''u1'')
            \<lparr>current_out := ''b'', prev_out := ''b'', text_hist := [''hi'', ''a''],
             transcript :=
               [\<lparr>seg_start = ''0.000'', seg_end = ''1.000'', seg_text = ''hi''\<rparr>,
                \<lparr>seg_start = ''1.500'', seg_end = ''2.000'', seg_text = ''a''\<rparr>],
             timestamp_offset := 2\<rparr>,
          [Some \<lparr>seg_start = ''1.000'', seg_end = ''1.900'', seg_text = ''there''\<rparr>,
           Some \<lparr>seg_start = ''2.000'', seg_end = ''2.900'', seg_text = ''b''\<rparr>])"
    using first second by simp
  from transcript_order_across_calls [OF wf, of 0 "''u1''"] wf run
  show ?thesis by blast
qed

lemma upt_seven:
  "[0..<7] = [0, 1, 2, 3, 4, 5, 6]"
  by code_simp

lemma ab_starts:
  "map seg_start (map ab_entry [0..<7] @ [format_segment 6 8 ''b'']) =
     [''0.500'', ''1.500'', ''2.500'', ''3.500'', ''4.500'', ''5.500'', ''6.500'', ''6.000'']"
  unfolding upt_seven
  by (simp add: ab_entry_def format_segment_def fmt3_def round_half_even_def pad3_def digit_def
      show_nat.simps)

lemma fmt3_rounded:
  "fmt3 (16001 / 16000) = ''1.000''"
  by (simp add: fmt3_def round_half_even_def pad3_def digit_def show_nat.simps)

lemma rounded_single_call_raw:
  "update_segments (new_client 0 ''u1'') [seg_c, seg_b] (16001 / 16000) =
     Inr ((new_client 0 ''u1'')
            \<lparr>current_out := ''b'', prev_out := ''b'', text_hist := [''c''],
             transcript := [format_segment 1 (16001 / 16000) ''c''],
             timestamp_offset := 16001 / 16000\<rparr>,
          Some (format_segment 1 (16001 / 16000) ''b''))"
  by (simp add: update_segments_def tentative_segment_def count_same_output_def
      commit_repeated_def seg_c_def seg_b_def new_client_def strip_def is_space_def Let_def)

text \<open>
  The claim fails in both parts. Seven calls with the batch \<open>a, b\<close> and duration 2 on a
  fresh session: the seventh commits \<open>a\<close> from 6.500 and then the repeated \<open>b\<close> from
  6.000, the cursor, so the starts decrease. One call with a chunk of 16001 samples whose
  complete segment starts at 1.0: the entry is stored as \<open>1.000 .. 1.000\<close>, so its end
  is not greater than its start.
\<close>

theorem transcript_order_counterexample:
  "(case update_all (new_client 0 ''u1'') (replicate 7 ([seg_a, seg_b], 2)) of
      Inl e \<Rightarrow> []
    | Inr (c, rs) \<Rightarrow> map seg_start (transcript c)) =
     [''0.500'', ''1.500'', ''2.500'', ''3.500'', ''4.500'', ''5.500'', ''6.500'', ''6.000''] \<and>
   millis ''6.000'' < millis ''6.500'' \<and>
   (case update_all (new_client 0 ''u1'') [([seg_c, seg_b], 16001 / 16000)] of
      Inl e \<Rightarrow> []
    | Inr (c, rs) \<Rightarrow> map (\<lambda>e. (seg_start e, seg_end e)) (transcript c)) =
     [(''1.000'', ''1.000'')]"
proof -
  from seven_calls obtain rs where
    "update_all (new_client 0 ''u1'') (replicate 7 ([seg_a, seg_b], 2)) =
     Inr ((ab_state 5)
            \<lparr>current_out := [], same_output_threshold := 0,
             text_hist := text_hist (ab_state 5) @ [''a'', ''b''],
             transcript := map ab_entry [0..<7] @ [format_segment 6 8 ''b''],
             timestamp_offset := 8\<rparr>, rs)" ..
  then have a: "(case update_all (new_client 0 ''u1'') (replicate 7 ([seg_a, seg_b], 2)) of
      Inl e \<Rightarrow> []
    | Inr (c, rs) \<Rightarrow> map seg_start (transcript c)) =
     [''0.500'', ''1.500'', ''2.500'', ''3.500'', ''4.500'', ''5.500'', ''6.500'', ''6.000'']"
    using ab_starts by simp
  have b: "millis ''6.000'' < millis ''6.500''"
    by (simp add: millis_def read_nat_def digit_val_def)
  have c: "(case update_all (new_client 0 ''u1'') [([seg_c, seg_b], 16001 / 16000)] of
      Inl e \<Rightarrow> []
    | Inr (c, rs) \<Rightarrow> map (\<lambda>e. (seg_start e, seg_end e)) (transcript c)) =
     [(''1.000'', ''1.000'')]"
    using rounded_single_call_raw
    by (simp add: format_segment_def fmt3_rounded fmt3_values)
  from a b c show ?thesis by blast
qed

end
